theory Spec2Isabelle
  imports Complex_Main "HOL-Library.AList" "HOL-Library.Log_Nat"
begin

section \<open>OKR tracker: the state and computation engine of app.js\<close>

text \<open>
  The embedding follows the extended variant of \<^verbatim>\<open>src/app.js\<close> (the code from line 847 on:
  \<^verbatim>\<open>calculateProgress\<close>, \<^verbatim>\<open>recordProgressSnapshot\<close>, \<^verbatim>\<open>addHistoryEntry\<close>, the four weight
  balancers, \<^verbatim>\<open>saveObjective\<close>, \<^verbatim>\<open>deleteObjective\<close>, \<^verbatim>\<open>saveKeyResult\<close>, \<^verbatim>\<open>updateKR\<close>,
  \<^verbatim>\<open>deleteKR\<close>). The global \<^verbatim>\<open>data\<close> object is passed explicitly and returned updated.
  Rendering, file access and chart updates do not touch \<^verbatim>\<open>data\<close> and are left out.
\<close>

subsection \<open>JavaScript numbers\<close>

text \<open>
  A JavaScript number is an IEEE 754 binary64 value: a finite value, \<^verbatim>\<open>NaN\<close>, \<^verbatim>\<open>Infinity\<close> or
  \<^verbatim>\<open>-Infinity\<close>. A finite value is the rational it denotes; the sign of zero is not
  tracked (it shows only in a positive \<^verbatim>\<open>current\<close> over a target \<^verbatim>\<open>-0\<close>, which no mutator
  produces).
\<close>

datatype jsnum = Num rat | NaN | PosInfinity | NegInfinity

text \<open>
  Rounding to binary64, to nearest with ties to even. \<open>flog2 x\<close> is the exponent of a
  positive \<open>x\<close>: \<open>2 ^ flog2 x \<le> x < 2 ^ (flog2 x + 1)\<close>. A significand has 53 bits, so the
  doubles next to \<open>x\<close> are the multiples of \<open>2 ^ (flog2 x - 52)\<close>; below the least normal
  exponent -1022 the spacing stays \<open>2 ^ -1074\<close> (subnormal numbers), and a result of
  magnitude \<open>2 ^ 1024\<close> or more is an infinity.
\<close>

definition pow2 :: "int \<Rightarrow> rat" where
  "pow2 e = (if 0 \<le> e then 2 ^ nat e else 1 / 2 ^ nat (- e))"

definition flog2 :: "rat \<Rightarrow> int" where
  "flog2 x = (if 1 \<le> x then bitlen \<lfloor>x\<rfloor> - 1 else - bitlen (\<lceil>1 / x\<rceil> - 1))"

definition roundTiesToEven :: "rat \<Rightarrow> int" where
  "roundTiesToEven r =
     (let f = \<lfloor>r\<rfloor>; d = r - of_int f
      in if d < 1 / 2 then f else if 1 / 2 < d then f + 1 else if even f then f else f + 1)"

definition fl :: "rat \<Rightarrow> jsnum" where
  "fl x =
     (if x = 0 then Num 0
      else
        let e = max (flog2 \<bar>x\<bar>) (- 1022);
            u = pow2 (e - 52);
            y = of_int (roundTiesToEven (x / u)) * u
        in if y = 0 then Num 0
           else if 1024 \<le> flog2 \<bar>y\<bar> then (if 0 < x then PosInfinity else NegInfinity)
           else Num y)"

text \<open>
  \<^verbatim>\<open>+\<close>, \<^verbatim>\<open>*\<close> and \<^verbatim>\<open>/\<close> on numbers: the exact result, rounded; the special values as IEEE 754
  has them.
\<close>

fun js_add :: "jsnum \<Rightarrow> jsnum \<Rightarrow> jsnum" where
  "js_add (Num a) (Num b) = fl (a + b)"
| "js_add NaN _ = NaN"
| "js_add _ NaN = NaN"
| "js_add PosInfinity NegInfinity = NaN"
| "js_add NegInfinity PosInfinity = NaN"
| "js_add PosInfinity _ = PosInfinity"
| "js_add NegInfinity _ = NegInfinity"
| "js_add _ PosInfinity = PosInfinity"
| "js_add _ NegInfinity = NegInfinity"

definition js_signed_inf :: "rat \<Rightarrow> jsnum" where
  "js_signed_inf a = (if a = 0 then NaN else if 0 < a then PosInfinity else NegInfinity)"

fun js_mul :: "jsnum \<Rightarrow> jsnum \<Rightarrow> jsnum" where
  "js_mul (Num a) (Num b) = fl (a * b)"
| "js_mul NaN _ = NaN"
| "js_mul _ NaN = NaN"
| "js_mul PosInfinity (Num b) = js_signed_inf b"
| "js_mul NegInfinity (Num b) = js_signed_inf (- b)"
| "js_mul (Num a) PosInfinity = js_signed_inf a"
| "js_mul (Num a) NegInfinity = js_signed_inf (- a)"
| "js_mul PosInfinity PosInfinity = PosInfinity"
| "js_mul NegInfinity NegInfinity = PosInfinity"
| "js_mul PosInfinity NegInfinity = NegInfinity"
| "js_mul NegInfinity PosInfinity = NegInfinity"

fun js_div :: "jsnum \<Rightarrow> jsnum \<Rightarrow> jsnum" where
  "js_div (Num a) (Num b) = (if b = 0 then js_signed_inf a else fl (a / b))"
| "js_div NaN _ = NaN"
| "js_div _ NaN = NaN"
| "js_div (Num a) _ = Num 0"
| "js_div PosInfinity (Num b) = (if 0 \<le> b then PosInfinity else NegInfinity)"
| "js_div NegInfinity (Num b) = (if 0 \<le> b then NegInfinity else PosInfinity)"
| "js_div PosInfinity _ = NaN"
| "js_div NegInfinity _ = NaN"

text \<open>
  \<^verbatim>\<open>Math.round\<close> gives the integer nearest to its argument, the larger one at a tie, and
  \<^verbatim>\<open>Math.min\<close> the smaller argument; both results are doubles without rounding.
\<close>

fun Math_round :: "jsnum \<Rightarrow> jsnum" where
  "Math_round (Num a) = Num (of_int \<lfloor>a + 1 / 2\<rfloor>)"
| "Math_round x = x"

fun Math_min :: "jsnum \<Rightarrow> jsnum \<Rightarrow> jsnum" where
  "Math_min (Num a) (Num b) = Num (min a b)"
| "Math_min NaN _ = NaN"
| "Math_min _ NaN = NaN"
| "Math_min NegInfinity _ = NegInfinity"
| "Math_min _ NegInfinity = NegInfinity"
| "Math_min PosInfinity x = x"
| "Math_min x PosInfinity = x"

text \<open>
  \<^verbatim>\<open>-\<close> and \<^verbatim>\<open><\<close> on numbers, and \<^verbatim>\<open>Math.floor\<close>: they are what the weight balancers use next to
  \<^verbatim>\<open>/\<close>, \<^verbatim>\<open>*\<close> and \<^verbatim>\<open>+\<close>.
\<close>

fun js_sub :: "jsnum \<Rightarrow> jsnum \<Rightarrow> jsnum" where
  "js_sub (Num a) (Num b) = fl (a - b)"
| "js_sub NaN _ = NaN"
| "js_sub _ NaN = NaN"
| "js_sub PosInfinity PosInfinity = NaN"
| "js_sub NegInfinity NegInfinity = NaN"
| "js_sub PosInfinity _ = PosInfinity"
| "js_sub NegInfinity _ = NegInfinity"
| "js_sub _ PosInfinity = NegInfinity"
| "js_sub _ NegInfinity = PosInfinity"

fun js_less :: "jsnum \<Rightarrow> jsnum \<Rightarrow> bool" where
  "js_less (Num a) (Num b) = (a < b)"
| "js_less NaN _ = False"
| "js_less _ NaN = False"
| "js_less PosInfinity _ = False"
| "js_less _ PosInfinity = True"
| "js_less NegInfinity NegInfinity = False"
| "js_less NegInfinity _ = True"
| "js_less _ NegInfinity = False"

fun Math_floor :: "jsnum \<Rightarrow> jsnum" where
  "Math_floor (Num a) = Num (of_int \<lfloor>a\<rfloor>)"
| "Math_floor x = x"

text \<open>
  The stored numbers (\<^verbatim>\<open>current\<close>, \<^verbatim>\<open>target\<close>, \<^verbatim>\<open>weight\<close>, \<^verbatim>\<open>delta\<close>) are integers: they come
  from \<^verbatim>\<open>parseInt\<close>, from the literal \<^verbatim>\<open>0\<close> and from the buttons' \<^verbatim>\<open>+10\<close> and \<^verbatim>\<open>-10\<close>. They are
  integers that a double holds (every integer up to \<open>2 ^ 53\<close> in magnitude is one); a
  \<^verbatim>\<open>parseInt\<close> that yields \<^verbatim>\<open>NaN\<close> is outside this model. \<open>js_int\<close> reads a stored number as
  a JavaScript number.
\<close>

definition js_int :: "int \<Rightarrow> jsnum" where
  "js_int i = Num (of_int i)"

text \<open>
  \<^verbatim>\<open>a + b\<close> on two stored numbers: exact up to \<open>2 ^ 53\<close>, rounded to the nearest double
  beyond (a sum whose rounding is an infinity cannot be stored in an integer field;
  it takes a \<^verbatim>\<open>delta\<close> far beyond the buttons' 10).
\<close>

definition js_add_int :: "int \<Rightarrow> int \<Rightarrow> int" where
  "js_add_int a b =
     (let s = a + b
      in if \<bar>s\<bar> \<le> 9007199254740992 then s
         else (case fl (of_int s) of Num y \<Rightarrow> \<lfloor>y\<rfloor> | _ \<Rightarrow> s))"

subsection \<open>Data model\<close>

record keyresult =
  kr_id :: string
  kr_title :: string
  target :: int
  current :: int
  kr_startDate :: string
  kr_targetDate :: string
  kr_weight :: int
  status :: string
  confidence :: string
  kr_lastCheckin :: string
  evidence :: string
  comments :: string
  kr_createdAt :: string

record objective =
  obj_id :: string
  group :: string
  year :: int
  quarter :: string
  title :: string
  purpose :: string
  startDate :: string
  targetDate :: string
  weight :: int
  lastCheckin :: string
  keyResults :: "keyresult list"
  createdAt :: string

datatype jsval = JStr string | JInt int

record snapKeyResult =
  sk_title :: string
  sk_progress :: jsnum
  sk_current :: int
  sk_target :: int

record snapObjective =
  so_title :: string
  so_group :: string
  so_progress :: jsnum
  so_keyResults :: "(string \<times> snapKeyResult) list"

record snapshot =
  snap_timestamp :: string
  snap_objectives :: "(string \<times> snapObjective) list"

text \<open>
  The \<^verbatim>\<open>changes\<close> object of a history entry is one of: \<^verbatim>\<open>{created: true}\<close>,
  \<^verbatim>\<open>{deleted: true}\<close>, a field diff (field name, from, to), the progress change of
  \<^verbatim>\<open>updateKR\<close>, or \<^verbatim>\<open>{snapshot: ...}\<close>. The two template strings
  \<^verbatim>\<open>`${current}/${target} (${progress}%)`\<close> of a progress change are kept as the triple of
  the interpolated values.
\<close>

type_synonym progressText = "int \<times> int \<times> jsnum"

datatype changes =
    Created
  | Deleted
  | Diff "(string \<times> jsval \<times> jsval) list"
  | ProgressChange progressText progressText int
  | SnapshotOf snapshot

record historyEntry =
  h_id :: string
  timestamp :: string
  h_type :: string
  itemType :: string
  itemId :: string
  itemTitle :: string
  h_changes :: changes
  h_group :: "string option"

text \<open>
  \<^verbatim>\<open>data\<close>: a missing \<^verbatim>\<open>history\<close> field is replaced by \<^verbatim>\<open>[]\<close> on load and at the start of
  \<^verbatim>\<open>addHistoryEntry\<close>, so it is the empty list here.
\<close>

record document =
  objectives :: "objective list"
  history :: "historyEntry list"

text \<open>
  What the source reads from the outside world during one operation: the results of
  \<^verbatim>\<open>generateId()\<close> and of \<^verbatim>\<open>new Date()\<close>, in the order of the calls.
\<close>

record env =
  newId :: string
  today :: string
  entryId :: string
  entryTime :: string
  snapTime :: string
  snapEntryId :: string
  snapEntryTime :: string

subsection \<open>Array helpers\<close>

text \<open>
  \<^verbatim>\<open>arr.find(p)\<close> followed by assignments to the fields of the object found: the first
  element that satisfies \<^verbatim>\<open>p\<close> is updated in place.
\<close>

fun updateFirst :: "('a \<Rightarrow> bool) \<Rightarrow> ('a \<Rightarrow> 'a) \<Rightarrow> 'a list \<Rightarrow> 'a list" where
  "updateFirst p f [] = []"
| "updateFirst p f (x # xs) = (if p x then f x # xs else x # updateFirst p f xs)"

text \<open>
  \<^verbatim>\<open>arr.filter(p).forEach((x, index) => ...)\<close> where the body assigns to fields of \<^verbatim>\<open>x\<close>:
  the filtered array shares its objects with \<^verbatim>\<open>arr\<close>, so the elements of \<^verbatim>\<open>arr\<close> that
  satisfy \<^verbatim>\<open>p\<close> are updated, and \<^verbatim>\<open>index\<close> counts only those. The counter starts at \<^verbatim>\<open>i\<close>.
\<close>

fun forEachFiltered :: "('a \<Rightarrow> bool) \<Rightarrow> (nat \<Rightarrow> 'a \<Rightarrow> 'a) \<Rightarrow> nat \<Rightarrow> 'a list \<Rightarrow> 'a list" where
  "forEachFiltered p f i [] = []"
| "forEachFiltered p f i (x # xs) =
     (if p x then f i x # forEachFiltered p f (Suc i) xs
      else x # forEachFiltered p f i xs)"

text \<open>\<^verbatim>\<open>arr.forEach((x, index) => ...)\<close> with a body that assigns to fields of \<^verbatim>\<open>x\<close>.\<close>

fun forEachIndexed :: "(nat \<Rightarrow> 'a \<Rightarrow> 'a) \<Rightarrow> nat \<Rightarrow> 'a list \<Rightarrow> 'a list" where
  "forEachIndexed f i [] = []"
| "forEachIndexed f i (x # xs) = f i x # forEachIndexed f (Suc i) xs"

subsection \<open>Weight balancer\<close>

text \<open>
  The weights are integers, and the arithmetic of the balancers is written on the
  integers: \<^verbatim>\<open>Math.floor(a / n)\<close> for an integer \<^verbatim>\<open>a\<close> and a positive integer \<^verbatim>\<open>n\<close> is
  \<^verbatim>\<open>a div n\<close> (rounding towards minus infinity, also for negative \<^verbatim>\<open>a\<close>). The code computes
  in doubles. While the manual weight is at most \<open>2^52\<close> in magnitude and the collection
  has fewer than \<open>2^32\<close> elements, as every JavaScript array has, each operation of a
  balancer is exact in doubles and gives the integer written here: this is lemma
  \<open>balancer_doubles_exact\<close> below, about \<open>js_equalWeight\<close>, \<open>js_remainder\<close> and
  \<open>js_balancedWeight\<close>, which transcribe the expressions of the code on doubles. Beyond
  that range the results of the code are rounded (for the weight \<open>10^20\<close> and two other
  siblings it stores \<open>-5 * 10^19\<close> twice, lemma \<open>balancer_doubles_beyond\<close>), and such
  weights are outside the domain of these definitions.
\<close>

definition autoBalanceObjectiveWeights :: "document \<Rightarrow> document" where
  "autoBalanceObjectiveWeights d =
     (if length (objectives d) = 0 then d
      else
        let equalWeight = 100 div int (length (objectives d));
            remainder = 100 - equalWeight * int (length (objectives d))
        in d\<lparr>objectives :=
               forEachIndexed
                 (\<lambda>index obj. obj\<lparr>weight := equalWeight + (if int index < remainder then 1 else 0)\<rparr>)
                 0 (objectives d)\<rparr>)"

definition balanceOtherObjectives :: "string \<Rightarrow> int \<Rightarrow> document \<Rightarrow> document" where
  "balanceOtherObjectives editedId manualWeight d =
     (if length (objectives d) \<le> 1 then d
      else
        let remainingWeight = 100 - manualWeight;
            others = filter (\<lambda>ob. obj_id ob \<noteq> editedId) (objectives d)
        in if length others = 0 then d
           else
             let equalWeight = remainingWeight div int (length others);
                 remainder = remainingWeight - equalWeight * int (length others)
             in d\<lparr>objectives :=
                    forEachFiltered (\<lambda>ob. obj_id ob \<noteq> editedId)
                      (\<lambda>index obj. obj\<lparr>weight := equalWeight + (if int index < remainder then 1 else 0)\<rparr>)
                      0 (objectives d)\<rparr>)"

definition autoBalanceKRWeights :: "string \<Rightarrow> document \<Rightarrow> document" where
  "autoBalanceKRWeights objectiveId d =
     (case find (\<lambda>ob. obj_id ob = objectiveId) (objectives d) of
        None \<Rightarrow> d
      | Some obj \<Rightarrow>
          if length (keyResults obj) = 0 then d
          else
            let equalWeight = 100 div int (length (keyResults obj));
                remainder = 100 - equalWeight * int (length (keyResults obj))
            in d\<lparr>objectives :=
                   updateFirst (\<lambda>ob. obj_id ob = objectiveId)
                     (\<lambda>obj. obj\<lparr>keyResults :=
                        forEachIndexed
                          (\<lambda>index kr. kr\<lparr>kr_weight := equalWeight + (if int index < remainder then 1 else 0)\<rparr>)
                          0 (keyResults obj)\<rparr>)
                     (objectives d)\<rparr>)"

definition balanceOtherKRs :: "string \<Rightarrow> string \<Rightarrow> int \<Rightarrow> document \<Rightarrow> document" where
  "balanceOtherKRs objectiveId editedKRId manualWeight d =
     (case find (\<lambda>ob. obj_id ob = objectiveId) (objectives d) of
        None \<Rightarrow> d
      | Some obj \<Rightarrow>
          if length (keyResults obj) \<le> 1 then d
          else
            let remainingWeight = 100 - manualWeight;
                others = filter (\<lambda>kr. kr_id kr \<noteq> editedKRId) (keyResults obj)
            in if length others = 0 then d
               else
                 let equalWeight = remainingWeight div int (length others);
                     remainder = remainingWeight - equalWeight * int (length others)
                 in d\<lparr>objectives :=
                        updateFirst (\<lambda>ob. obj_id ob = objectiveId)
                          (\<lambda>obj. obj\<lparr>keyResults :=
                             forEachFiltered (\<lambda>kr. kr_id kr \<noteq> editedKRId)
                               (\<lambda>index kr. kr\<lparr>kr_weight := equalWeight + (if int index < remainder then 1 else 0)\<rparr>)
                               0 (keyResults obj)\<rparr>)
                          (objectives d)\<rparr>)"

text \<open>
  The expressions of the balancers on doubles: \<^verbatim>\<open>Math.floor(amount / n)\<close>,
  \<^verbatim>\<open>amount - (equalWeight * n)\<close> and \<^verbatim>\<open>equalWeight + (index < remainder ? 1 : 0)\<close>, for the
  amount to distribute (100, or \<^verbatim>\<open>100 - manualWeight\<close>) and the number \<^verbatim>\<open>n\<close> of siblings that
  share it.
\<close>

definition js_equalWeight :: "jsnum \<Rightarrow> nat \<Rightarrow> jsnum" where
  "js_equalWeight amount n = Math_floor (js_div amount (js_int (int n)))"

definition js_remainder :: "jsnum \<Rightarrow> nat \<Rightarrow> jsnum" where
  "js_remainder amount n = js_sub amount (js_mul (js_equalWeight amount n) (js_int (int n)))"

definition js_balancedWeight :: "jsnum \<Rightarrow> nat \<Rightarrow> nat \<Rightarrow> jsnum" where
  "js_balancedWeight amount n index =
     js_add (js_equalWeight amount n)
       (if js_less (js_int (int index)) (js_remainder amount n) then Num 1 else Num 0)"

text \<open>
  The two balance buttons: the balancing pass, then \<^verbatim>\<open>saveToFile\<close> and \<^verbatim>\<open>renderObjectives\<close>,
  which leave \<^verbatim>\<open>data\<close> as it is.
\<close>

definition balanceObjectiveWeights :: "document \<Rightarrow> document" where
  "balanceObjectiveWeights d = autoBalanceObjectiveWeights d"

definition balanceKRWeights :: "string \<Rightarrow> document \<Rightarrow> document" where
  "balanceKRWeights objectiveId d = autoBalanceKRWeights objectiveId d"

subsection \<open>Progress calculator\<close>

text \<open>
  \<^verbatim>\<open>(kr.current / kr.target) * 100\<close>, the summand of \<^verbatim>\<open>calculateProgress\<close> and the argument
  of \<^verbatim>\<open>Math.round\<close> wherever the source computes the progress of a key result.
\<close>

definition krPercent :: "keyresult \<Rightarrow> jsnum" where
  "krPercent kr = js_mul (js_div (js_int (current kr)) (js_int (target kr))) (Num 100)"

text \<open>
  \<^verbatim>\<open>Math.min(100, Math.round((kr.current / kr.target) * 100))\<close>: the expression that
  \<^verbatim>\<open>recordProgressSnapshot\<close>, \<^verbatim>\<open>renderObjectives\<close> and \<^verbatim>\<open>updateKR\<close> each write out.
\<close>

definition krProgress :: "keyresult \<Rightarrow> jsnum" where
  "krProgress kr = Math_min (Num 100) (Math_round (krPercent kr))"

definition calculateProgress :: "objective \<Rightarrow> jsnum" where
  "calculateProgress objective =
     (if length (keyResults objective) = 0 then Num 0
      else
        let total = foldl (\<lambda>sum kr. js_add sum (krPercent kr)) (Num 0) (keyResults objective)
        in Math_min (Num 100)
             (Math_round (js_div total (Num (of_nat (length (keyResults objective)))))))"

subsection \<open>History log\<close>

definition addHistoryEntry ::
  "string \<Rightarrow> string \<Rightarrow> string \<Rightarrow> string \<Rightarrow> string \<Rightarrow> string \<Rightarrow> changes \<Rightarrow> string option
     \<Rightarrow> document \<Rightarrow> document" where
  "addHistoryEntry eid now type itype iid ititle chg grp d =
     (let entry = \<lparr>h_id = eid, timestamp = now, h_type = type, itemType = itype,
                    itemId = iid, itemTitle = ititle, h_changes = chg, h_group = grp\<rparr>;
          h = entry # history d
      in d\<lparr>history := (if length h > 1000 then take 1000 h else h)\<rparr>)"

subsection \<open>Snapshot recorder\<close>

text \<open>
  \<^verbatim>\<open>snapshot.objectives\<close> and each \<^verbatim>\<open>keyResults\<close> inside it are objects used as
  dictionaries keyed by id: an assignment to a key that is present replaces its value,
  an assignment to a new key adds it.
\<close>

definition orDefault :: "string \<Rightarrow> string \<Rightarrow> string" where
  "orDefault s dflt = (if s = [] then dflt else s)"

definition snapshotKeyResult :: "keyresult \<Rightarrow> snapKeyResult" where
  "snapshotKeyResult kr =
     \<lparr>sk_title = kr_title kr, sk_progress = krProgress kr,
      sk_current = current kr, sk_target = target kr\<rparr>"

definition snapshotKeyResults :: "keyresult list \<Rightarrow> (string \<times> snapKeyResult) list" where
  "snapshotKeyResults krs =
     foldl (\<lambda>m kr. AList.update (kr_id kr) (snapshotKeyResult kr) m) [] krs"

definition snapshotObjective :: "objective \<Rightarrow> snapObjective" where
  "snapshotObjective obj =
     \<lparr>so_title = title obj, so_group = orDefault (group obj) ''Personal'',
      so_progress = calculateProgress obj,
      so_keyResults = snapshotKeyResults (keyResults obj)\<rparr>"

definition snapshotObjectives :: "objective list \<Rightarrow> (string \<times> snapObjective) list" where
  "snapshotObjectives objs =
     foldl (\<lambda>m obj. AList.update (obj_id obj) (snapshotObjective obj) m) [] objs"

definition recordProgressSnapshot :: "env \<Rightarrow> document \<Rightarrow> document" where
  "recordProgressSnapshot e d =
     (if length (objectives d) = 0 then d
      else
        let snapshot = \<lparr>snap_timestamp = snapTime e,
                        snap_objectives = snapshotObjectives (objectives d)\<rparr>
        in addHistoryEntry (snapEntryId e) (snapEntryTime e)
             ''progress-snapshot'' ''system'' ''all'' ''Progress Snapshot''
             (SnapshotOf snapshot) None d)"

subsection \<open>Objectives: save and delete\<close>

text \<open>
  The object that the submit handler of the objective form builds. \<^verbatim>\<open>editId\<close> is the
  value of a hidden input or \<^verbatim>\<open>null\<close>; \<^verbatim>\<open>if (editId)\<close> takes the empty string and \<^verbatim>\<open>null\<close>
  alike to the add branch, so \<^verbatim>\<open>null\<close> is the empty string here.
\<close>

record formData =
  fd_editId :: string
  fd_group :: string
  fd_year :: int
  fd_quarter :: string
  fd_title :: string
  fd_purpose :: string
  fd_startDate :: string
  fd_targetDate :: string
  fd_weight :: int
  fd_lastCheckin :: string

definition changedStr :: "string \<Rightarrow> string \<Rightarrow> string \<Rightarrow> (string \<times> jsval \<times> jsval) list" where
  "changedStr field old new = (if old \<noteq> new then [(field, JStr old, JStr new)] else [])"

definition changedInt :: "string \<Rightarrow> int \<Rightarrow> int \<Rightarrow> (string \<times> jsval \<times> jsval) list" where
  "changedInt field old new = (if old \<noteq> new then [(field, JInt old, JInt new)] else [])"

definition objectiveChanges :: "objective \<Rightarrow> formData \<Rightarrow> (string \<times> jsval \<times> jsval) list" where
  "objectiveChanges obj fd =
     changedStr ''title'' (title obj) (fd_title fd) @
     changedStr ''group'' (group obj) (fd_group fd) @
     changedInt ''year'' (year obj) (fd_year fd) @
     changedStr ''quarter'' (quarter obj) (fd_quarter fd) @
     changedStr ''purpose'' (purpose obj) (fd_purpose fd) @
     changedStr ''startDate'' (startDate obj) (fd_startDate fd) @
     changedStr ''targetDate'' (targetDate obj) (fd_targetDate fd) @
     changedInt ''weight'' (weight obj) (fd_weight fd) @
     changedStr ''lastCheckin'' (lastCheckin obj) (fd_lastCheckin fd)"

definition assignObjective :: "formData \<Rightarrow> objective \<Rightarrow> objective" where
  "assignObjective fd obj =
     obj\<lparr>group := fd_group fd, year := fd_year fd, quarter := fd_quarter fd,
         title := fd_title fd, purpose := fd_purpose fd, startDate := fd_startDate fd,
         targetDate := fd_targetDate fd, weight := fd_weight fd,
         lastCheckin := fd_lastCheckin fd\<rparr>"

definition newObjective :: "formData \<Rightarrow> env \<Rightarrow> objective" where
  "newObjective fd e =
     \<lparr>obj_id = newId e, group = fd_group fd, year = fd_year fd, quarter = fd_quarter fd,
      title = fd_title fd, purpose = fd_purpose fd, startDate = fd_startDate fd,
      targetDate = fd_targetDate fd, weight = 0, lastCheckin = fd_lastCheckin fd,
      keyResults = [], createdAt = today e\<rparr>"

text \<open>\<^verbatim>\<open>fileHandle\<close> is the global that tells whether a file is open.\<close>

definition saveObjective :: "bool \<Rightarrow> formData \<Rightarrow> env \<Rightarrow> document \<Rightarrow> document" where
  "saveObjective fileHandle fd e d =
     (if \<not> fileHandle then d
      else
        let editId = fd_editId fd;
            d1 =
              (if editId \<noteq> [] then
                 (case find (\<lambda>ob. obj_id ob = editId) (objectives d) of
                    None \<Rightarrow> d
                  | Some obj \<Rightarrow>
                      let oldWeight = weight obj;
                          chg = objectiveChanges obj fd;
                          d2 = d\<lparr>objectives :=
                                  updateFirst (\<lambda>ob. obj_id ob = editId) (assignObjective fd)
                                    (objectives d)\<rparr>;
                          d3 = (if length chg > 0
                                then addHistoryEntry (entryId e) (entryTime e) ''updated''
                                       ''objective'' editId (fd_title fd) (Diff chg)
                                       (Some (fd_group fd)) d2
                                else d2)
                      in if oldWeight \<noteq> fd_weight fd
                         then balanceOtherObjectives editId (fd_weight fd) d3
                         else d3)
               else
                 let d2 = d\<lparr>objectives := objectives d @ [newObjective fd e]\<rparr>;
                     d3 = autoBalanceObjectiveWeights d2
                 in addHistoryEntry (entryId e) (entryTime e) ''created'' ''objective''
                      (newId e) (fd_title fd) Created (Some (fd_group fd)) d3)
        in recordProgressSnapshot e d1)"

text \<open>\<^verbatim>\<open>confirmed\<close> is the answer to the \<^verbatim>\<open>confirm(...)\<close> dialog.\<close>

definition deleteObjective :: "bool \<Rightarrow> string \<Rightarrow> env \<Rightarrow> document \<Rightarrow> document" where
  "deleteObjective confirmed i e d =
     (if \<not> confirmed then d
      else
        let d1 = (case find (\<lambda>ob. obj_id ob = i) (objectives d) of
                    Some obj \<Rightarrow>
                      addHistoryEntry (entryId e) (entryTime e) ''deleted'' ''objective'' i
                        (title obj) Deleted (Some (group obj)) d
                  | None \<Rightarrow> d);
            d2 = d1\<lparr>objectives := filter (\<lambda>obj. obj_id obj \<noteq> i) (objectives d1)\<rparr>
        in recordProgressSnapshot e d2)"

subsection \<open>Key results: save, update, delete\<close>

text \<open>
  \<^verbatim>\<open>saveKeyResult\<close> receives \<^verbatim>\<open>target\<close> and \<^verbatim>\<open>weight\<close> as strings and reads them through
  \<^verbatim>\<open>parseInt\<close> at each use; the parameters here are the parsed integers.
\<close>

definition keyResultChanges ::
  "keyresult \<Rightarrow> string \<Rightarrow> int \<Rightarrow> string \<Rightarrow> string \<Rightarrow> int \<Rightarrow> string \<Rightarrow> string \<Rightarrow> string
     \<Rightarrow> string \<Rightarrow> string \<Rightarrow> (string \<times> jsval \<times> jsval) list" where
  "keyResultChanges kr ttl tgt sDate tDate wgt stat conf lastC evid comm =
     changedStr ''title'' (kr_title kr) ttl @
     changedStr ''status'' (status kr) stat @
     (if confidence kr \<noteq> conf
      then [(''confidence'', JStr (orDefault (confidence kr) ''Medium''), JStr conf)] else []) @
     changedInt ''target'' (target kr) tgt @
     changedStr ''startDate'' (kr_startDate kr) sDate @
     changedStr ''targetDate'' (kr_targetDate kr) tDate @
     changedInt ''weight'' (kr_weight kr) wgt @
     changedStr ''lastCheckin'' (kr_lastCheckin kr) lastC @
     changedStr ''evidence'' (evidence kr) evid @
     changedStr ''comments'' (comments kr) comm"

definition assignKeyResult ::
  "string \<Rightarrow> int \<Rightarrow> string \<Rightarrow> string \<Rightarrow> int \<Rightarrow> string \<Rightarrow> string \<Rightarrow> string
     \<Rightarrow> string \<Rightarrow> string \<Rightarrow> keyresult \<Rightarrow> keyresult" where
  "assignKeyResult ttl tgt sDate tDate wgt stat conf lastC evid comm kr =
     kr\<lparr>kr_title := ttl, target := tgt, current := min (current kr) tgt,
        kr_startDate := sDate, kr_targetDate := tDate, kr_weight := wgt, status := stat,
        confidence := conf, kr_lastCheckin := lastC, evidence := evid, comments := comm\<rparr>"

definition newKeyResult ::
  "string \<Rightarrow> int \<Rightarrow> string \<Rightarrow> string \<Rightarrow> string \<Rightarrow> string \<Rightarrow> string
     \<Rightarrow> string \<Rightarrow> string \<Rightarrow> env \<Rightarrow> keyresult" where
  "newKeyResult ttl tgt sDate tDate stat conf lastC evid comm e =
     \<lparr>kr_id = newId e, kr_title = ttl, target = tgt, current = 0, kr_startDate = sDate,
      kr_targetDate = tDate, kr_weight = 0, status = stat, confidence = conf,
      kr_lastCheckin = lastC, evidence = evid, comments = comm, kr_createdAt = today e\<rparr>"

definition saveKeyResult ::
  "string \<Rightarrow> string \<Rightarrow> int \<Rightarrow> string \<Rightarrow> string \<Rightarrow> int \<Rightarrow> string \<Rightarrow> string \<Rightarrow> string
     \<Rightarrow> string \<Rightarrow> string \<Rightarrow> string \<Rightarrow> env \<Rightarrow> document \<Rightarrow> document" where
  "saveKeyResult objectiveId ttl tgt sDate tDate wgt stat conf lastC evid comm editId e d =
     (case find (\<lambda>obj. obj_id obj = objectiveId) (objectives d) of
        None \<Rightarrow> d
      | Some objective \<Rightarrow>
          let d1 =
            (if editId \<noteq> [] then
               (case find (\<lambda>k. kr_id k = editId) (keyResults objective) of
                  None \<Rightarrow> d
                | Some kr \<Rightarrow>
                    let oldWeight = kr_weight kr;
                        chg = keyResultChanges kr ttl tgt sDate tDate wgt stat conf lastC evid comm;
                        d2 = d\<lparr>objectives :=
                                updateFirst (\<lambda>obj. obj_id obj = objectiveId)
                                  (\<lambda>obj. obj\<lparr>keyResults :=
                                     updateFirst (\<lambda>k. kr_id k = editId)
                                       (assignKeyResult ttl tgt sDate tDate wgt stat conf lastC evid comm)
                                       (keyResults obj)\<rparr>)
                                  (objectives d)\<rparr>;
                        d3 = (if length chg > 0
                              then addHistoryEntry (entryId e) (entryTime e) ''updated''
                                     ''keyresult'' editId ttl (Diff chg)
                                     (Some (group objective)) d2
                              else d2)
                    in if oldWeight \<noteq> wgt
                       then balanceOtherKRs objectiveId editId wgt d3
                       else d3)
             else
               let d2 = d\<lparr>objectives :=
                           updateFirst (\<lambda>obj. obj_id obj = objectiveId)
                             (\<lambda>obj. obj\<lparr>keyResults := keyResults obj @
                                [newKeyResult ttl tgt sDate tDate stat conf lastC evid comm e]\<rparr>)
                             (objectives d)\<rparr>;
                   d3 = autoBalanceKRWeights objectiveId d2
               in addHistoryEntry (entryId e) (entryTime e) ''created'' ''keyresult''
                    (newId e) ttl Created (Some (group objective)) d3)
          in recordProgressSnapshot e d1)"

definition updateKR :: "string \<Rightarrow> string \<Rightarrow> int \<Rightarrow> env \<Rightarrow> document \<Rightarrow> document" where
  "updateKR objectiveId krId delta e d =
     (case find (\<lambda>obj. obj_id obj = objectiveId) (objectives d) of
        None \<Rightarrow> d
      | Some objective \<Rightarrow>
          (case find (\<lambda>k. kr_id k = krId) (keyResults objective) of
             None \<Rightarrow> d
           | Some kr \<Rightarrow>
               let oldCurrent = current kr;
                   oldProgress = krProgress kr;
                   kr' = kr\<lparr>current := max 0 (min (target kr) (js_add_int (current kr) delta))\<rparr>;
                   newProgress = krProgress kr';
                   d1 = d\<lparr>objectives :=
                           updateFirst (\<lambda>obj. obj_id obj = objectiveId)
                             (\<lambda>obj. obj\<lparr>keyResults :=
                                updateFirst (\<lambda>k. kr_id k = krId)
                                  (\<lambda>k. k\<lparr>current := max 0 (min (target k) (js_add_int (current k) delta))\<rparr>)
                                  (keyResults obj)\<rparr>)
                             (objectives d)\<rparr>;
                   d2 = (if oldCurrent \<noteq> current kr'
                         then addHistoryEntry (entryId e) (entryTime e) ''progress''
                                ''keyresult'' krId (kr_title kr)
                                (ProgressChange (oldCurrent, target kr, oldProgress)
                                   (current kr', target kr', newProgress) delta)
                                (Some (group objective)) d1
                         else d1)
               in recordProgressSnapshot e d2))"

definition deleteKR :: "string \<Rightarrow> string \<Rightarrow> env \<Rightarrow> document \<Rightarrow> document" where
  "deleteKR objectiveId krId e d =
     (case find (\<lambda>obj. obj_id obj = objectiveId) (objectives d) of
        None \<Rightarrow> d
      | Some objective \<Rightarrow>
          let d1 = (case find (\<lambda>k. kr_id k = krId) (keyResults objective) of
                      Some kr \<Rightarrow>
                        addHistoryEntry (entryId e) (entryTime e) ''deleted'' ''keyresult'' krId
                          (kr_title kr) Deleted (Some (group objective)) d
                    | None \<Rightarrow> d);
              d2 = d1\<lparr>objectives :=
                      updateFirst (\<lambda>obj. obj_id obj = objectiveId)
                        (\<lambda>obj. obj\<lparr>keyResults := filter (\<lambda>k. kr_id k \<noteq> krId) (keyResults obj)\<rparr>)
                        (objectives d1)\<rparr>
          in recordProgressSnapshot e d2)"

subsection \<open>Entries the operations write\<close>

text \<open>
  The object that \<^verbatim>\<open>addHistoryEntry\<close> builds when \<^verbatim>\<open>recordProgressSnapshot\<close> calls it, for the
  objectives \<^verbatim>\<open>objs\<close> of the document.
\<close>

definition snapshotEntry :: "env \<Rightarrow> objective list \<Rightarrow> historyEntry" where
  "snapshotEntry e objs =
     \<lparr>h_id = snapEntryId e, timestamp = snapEntryTime e, h_type = ''progress-snapshot'',
      itemType = ''system'', itemId = ''all'', itemTitle = ''Progress Snapshot'',
      h_changes = SnapshotOf \<lparr>snap_timestamp = snapTime e,
                              snap_objectives = snapshotObjectives objs\<rparr>,
      h_group = None\<rparr>"

text \<open>
  \<^verbatim>\<open>Math.max(0, Math.min(kr.target, kr.current + delta))\<close>, the value \<^verbatim>\<open>updateKR\<close> stores, and
  the object that \<^verbatim>\<open>addHistoryEntry\<close> builds when \<^verbatim>\<open>updateKR\<close> calls it.
\<close>

definition clampedCurrent :: "keyresult \<Rightarrow> int \<Rightarrow> int" where
  "clampedCurrent kr delta = max 0 (min (target kr) (js_add_int (current kr) delta))"

definition progressEntry :: "env \<Rightarrow> string \<Rightarrow> objective \<Rightarrow> keyresult \<Rightarrow> int \<Rightarrow> historyEntry" where
  "progressEntry e krId objective kr delta =
     \<lparr>h_id = entryId e, timestamp = entryTime e, h_type = ''progress'',
      itemType = ''keyresult'', itemId = krId, itemTitle = kr_title kr,
      h_changes =
        ProgressChange (current kr, target kr, krProgress kr)
          (clampedCurrent kr delta, target kr, krProgress (kr\<lparr>current := clampedCurrent kr delta\<rparr>))
          delta,
      h_group = Some (group objective)\<rparr>"

subsection \<open>The formulas and the invariant of the specification\<close>

text \<open>
  The base-plus-remainder split as the specification words it: \<^verbatim>\<open>base = floor(amount/n)\<close>,
  \<^verbatim>\<open>remainder = amount - base*n\<close>; each of the \<^verbatim>\<open>n\<close> siblings, in collection order, gets
  \<^verbatim>\<open>base\<close>, and the first \<^verbatim>\<open>remainder\<close> siblings get one more.
\<close>

definition spec_split :: "int \<Rightarrow> nat \<Rightarrow> int list" where
  "spec_split amount n =
     (let base = amount div int n; remainder = amount - base * int n
      in map (\<lambda>i. base + (if int i < remainder then 1 else 0)) [0..<n])"

text \<open>The weight of the sibling at index \<open>k\<close>, for a base and a remainder.\<close>

definition share :: "int \<Rightarrow> int \<Rightarrow> nat \<Rightarrow> int" where
  "share base r k = base + (if int k < r then 1 else 0)"




text \<open>The invariant on \<^verbatim>\<open>current\<close>, for one key result and for every key result of a document.\<close>

definition krInvariant :: "keyresult \<Rightarrow> bool" where
  "krInvariant kr = (0 \<le> current kr \<and> current kr \<le> target kr)"

definition docInvariant :: "document \<Rightarrow> bool" where
  "docInvariant d = list_all (\<lambda>obj. list_all krInvariant (keyResults obj)) (objectives d)"

text \<open>
  How the history grows in one operation. \<open>atMostOneItemEntry old h\<close>: \<open>h\<close> is \<open>old\<close>, or
  \<open>old\<close> with one entry that is not a \<^verbatim>\<open>progress-snapshot\<close> entry put in front through the
  capped log. \<open>snapshotInFront e h d'\<close>: the history of \<open>d'\<close> is \<open>h\<close> with the
  \<^verbatim>\<open>progress-snapshot\<close> entry of the objectives of \<open>d'\<close> put in front through the capped log
  when \<open>d'\<close> has an objective, and \<open>h\<close> itself when it has none.
\<close>

definition atMostOneItemEntry :: "historyEntry list \<Rightarrow> historyEntry list \<Rightarrow> bool" where
  "atMostOneItemEntry old h =
     (h = old \<or> (h \<noteq> [] \<and> h_type (hd h) \<noteq> ''progress-snapshot'' \<and> tl h = take 999 old))"

definition snapshotInFront :: "env \<Rightarrow> historyEntry list \<Rightarrow> document \<Rightarrow> bool" where
  "snapshotInFront e h d' =
     (history d' =
        (if objectives d' = [] then h else snapshotEntry e (objectives d') # take 999 h))"

subsection \<open>Example documents\<close>

definition exKR :: "string \<Rightarrow> int \<Rightarrow> int \<Rightarrow> int \<Rightarrow> keyresult" where
  "exKR i c t w =
     \<lparr>kr_id = i, kr_title = i, target = t, current = c, kr_startDate = ''2025-01-01'',
      kr_targetDate = ''2025-03-31'', kr_weight = w, status = ''on-track'',
      confidence = ''Medium'', kr_lastCheckin = [], evidence = [], comments = [],
      kr_createdAt = ''2025-01-01''\<rparr>"

definition exObj :: "string \<Rightarrow> int \<Rightarrow> keyresult list \<Rightarrow> objective" where
  "exObj i w krs =
     \<lparr>obj_id = i, group = ''Team'', year = 2025, quarter = ''1'', title = i, purpose = [],
      startDate = [], targetDate = [], weight = w, lastCheckin = [], keyResults = krs,
      createdAt = ''2025-01-01''\<rparr>"

definition exEnv :: env where
  "exEnv = \<lparr>newId = ''n1'', today = ''2025-02-01'', entryId = ''h1'',
            entryTime = ''2025-02-01T10:00:00.000Z'', snapTime = ''2025-02-01T10:00:00.001Z'',
            snapEntryId = ''h2'', snapEntryTime = ''2025-02-01T10:00:00.002Z''\<rparr>"

definition exForm :: "string \<Rightarrow> int \<Rightarrow> formData" where
  "exForm i w =
     \<lparr>fd_editId = i, fd_group = ''Team'', fd_year = 2025, fd_quarter = ''1'', fd_title = ''t'',
      fd_purpose = [], fd_startDate = [], fd_targetDate = [], fd_weight = w,
      fd_lastCheckin = []\<rparr>"

text \<open>Three objectives with balanced weights; the first has two key results, 50/100 and 30/100.\<close>

definition exDoc :: document where
  "exDoc =
     \<lparr>objectives =
        [exObj ''a'' 34 [exKR ''k1'' 50 100 50, exKR ''k2'' 30 100 50],
         exObj ''b'' 33 [],
         exObj ''c'' 33 []],
      history = []\<rparr>"

definition emptyDoc :: document where
  "emptyDoc = \<lparr>objectives = [], history = []\<rparr>"

text \<open>Two objectives as they are left when the third of \<open>exDoc\<close> has been deleted.\<close>

definition exDocTwo :: document where
  "exDocTwo = \<lparr>objectives = [exObj ''a'' 34 [], exObj ''b'' 33 []], history = []\<rparr>"

text \<open>One objective whose only key result has reached its target.\<close>

definition exDocDone :: document where
  "exDocDone = \<lparr>objectives = [exObj ''a'' 100 [exKR ''k1'' 100 100 100]], history = []\<rparr>"


text \<open>A key result with target 0.\<close>

definition exObjZero :: objective where
  "exObjZero = exObj ''z'' 100 [exKR ''k0'' 0 0 100]"

text \<open>
  One objective without key results, and the document after adding a key result with
  target -5 to it and then editing that key result with the same target.
\<close>

definition exDocOne :: document where
  "exDocOne = \<lparr>objectives = [exObj ''a'' 100 []], history = []\<rparr>"

definition exDocNegative :: document where
  "exDocNegative =
     saveKeyResult ''a'' ''t'' (- 5) ''2025-01-01'' ''2025-03-31'' 100 ''on-track'' ''Medium''
       [] [] [] ''n1'' exEnv
       (saveKeyResult ''a'' ''t'' (- 5) ''2025-01-01'' ''2025-03-31'' 100 ''on-track'' ''Medium''
          [] [] [] [] exEnv exDocOne)"

section \<open>Properties\<close>

subsection \<open>Double arithmetic\<close>

text \<open>
  Rounding to a double: the exponent that \<open>flog2\<close> finds, the error of rounding to an
  integer, and the two facts the balancers rest on: an integer up to \<open>2^53\<close> in magnitude
  is a double, and the floor of the rounded quotient of an integer below \<open>2^53\<close> in
  magnitude by a positive integer up to \<open>2^32\<close> is the floor of the exact quotient.
\<close>

lemma pow2_powi: "pow2 e = 2 powi e"
  by (simp add: pow2_def power_int_def power_inverse[symmetric] inverse_eq_divide power_one_over)

lemma pow2_pos: "0 < pow2 e"
  by (simp add: pow2_def)

lemma pow2_add: "pow2 (a + b) = pow2 a * pow2 b"
  by (simp add: pow2_powi power_int_add)

lemma pow2_mono: "a \<le> b \<Longrightarrow> pow2 a \<le> pow2 b"
  by (simp add: pow2_powi power_int_increasing)

lemma pow2_less_cancel: "pow2 a < pow2 b \<Longrightarrow> a < b"
  using pow2_mono[of b a] by (cases "a < b") auto

lemma pow2_nat: "0 \<le> e \<Longrightarrow> pow2 e = 2 ^ nat e"
  by (simp add: pow2_def)

lemma flog2_lower:
  assumes "0 < a"
  shows "pow2 (flog2 a) \<le> a"
proof (cases "1 \<le> a")
  case True
  then have p: "0 < \<lfloor>a\<rfloor>" by simp
  have n: "0 \<le> bitlen \<lfloor>a\<rfloor> - 1"
    using p bitlen_ge_iff_power[of 1 "\<lfloor>a\<rfloor>"] by simp
  from bitlen_bounds[OF p] have "(2::int) ^ nat (bitlen \<lfloor>a\<rfloor> - 1) \<le> \<lfloor>a\<rfloor>" by simp
  then have "(of_int ((2::int) ^ nat (bitlen \<lfloor>a\<rfloor> - 1)) :: rat) \<le> of_int \<lfloor>a\<rfloor>"
    by (simp only: of_int_le_iff)
  also have "\<dots> \<le> a" by simp
  finally show ?thesis using True n by (simp add: flog2_def pow2_nat)
next
  case False
  define n where "n = \<lceil>1 / a\<rceil> - 1"
  have a1: "1 < 1 / a" using False assms by simp
  then have "1 < \<lceil>1 / a\<rceil>" by (simp add: less_ceiling_iff)
  then have np: "0 < n" by (simp add: n_def)
  have "1 / a \<le> of_int (n + 1)" by (simp add: n_def)
  moreover from bitlen_bounds[OF np] have "n + 1 \<le> 2 ^ nat (bitlen n)" by simp
  then have "(of_int (n + 1) :: rat) \<le> of_int (2 ^ nat (bitlen n))" by (simp only: of_int_le_iff)
  ultimately have "1 / a \<le> 2 ^ nat (bitlen n)" by simp
  then have "1 / 2 ^ nat (bitlen n) \<le> a"
    using assms by (simp add: field_simps)
  moreover have "0 < bitlen n" using np bitlen_ge_iff_power[of 1 n] by simp
  ultimately show ?thesis using False by (simp add: flog2_def pow2_def n_def)
qed

lemma flog2_less: "0 < a \<Longrightarrow> a < pow2 k \<Longrightarrow> flog2 a < k"
  using flog2_lower[of a] by (intro pow2_less_cancel) simp

lemma flog2_nonneg: "1 \<le> a \<Longrightarrow> 0 \<le> flog2 a"
proof -
  assume a: "1 \<le> a"
  then have "0 < \<lfloor>a\<rfloor>" by simp
  then have "1 \<le> bitlen \<lfloor>a\<rfloor>" using bitlen_ge_iff_power[of 1 "\<lfloor>a\<rfloor>"] by simp
  then show ?thesis using a by (simp add: flog2_def)
qed

lemma roundTiesToEven_of_int: "roundTiesToEven (of_int k) = k"
  by (simp add: roundTiesToEven_def)

lemma roundTiesToEven_error: "\<bar>of_int (roundTiesToEven t) - t\<bar> \<le> 1 / 2"
proof -
  define d where "d = t - of_int \<lfloor>t\<rfloor>"
  have d: "0 \<le> d" "d < 1" unfolding d_def by linarith+
  have t: "t = of_int \<lfloor>t\<rfloor> + d" by (simp add: d_def)
  consider "d < 1 / 2" | "1 / 2 < d" | "d = 1 / 2" by linarith
  then show ?thesis
  proof cases
    case 1
    then have "roundTiesToEven t = \<lfloor>t\<rfloor>" by (simp add: roundTiesToEven_def Let_def d_def)
    then have "of_int (roundTiesToEven t) - t = - d" by (simp add: d_def)
    then show ?thesis using d 1 by simp
  next
    case 2
    then have "roundTiesToEven t = \<lfloor>t\<rfloor> + 1" by (simp add: roundTiesToEven_def Let_def d_def)
    then have "of_int (roundTiesToEven t) - t = 1 - d" by (simp add: d_def)
    then show ?thesis using d 2 by simp
  next
    case 3
    then have "roundTiesToEven t = \<lfloor>t\<rfloor> \<or> roundTiesToEven t = \<lfloor>t\<rfloor> + 1"
      by (simp add: roundTiesToEven_def Let_def d_def)
    then have "of_int (roundTiesToEven t) - t = - d \<or> of_int (roundTiesToEven t) - t = 1 - d"
      by (auto simp: d_def)
    then show ?thesis using 3 by auto
  qed
qed

lemma fl_eq:
  assumes "x \<noteq> 0"
    and "y = of_int (roundTiesToEven (x / pow2 (max (flog2 \<bar>x\<bar>) (- 1022) - 52)))
               * pow2 (max (flog2 \<bar>x\<bar>) (- 1022) - 52)"
    and "y \<noteq> 0" and "flog2 \<bar>y\<bar> < 1024"
  shows "fl x = Num y"
  using assms by (simp add: fl_def Let_def)

lemma flog2_small: "0 < a \<Longrightarrow> a < 18014398509481984 \<Longrightarrow> flog2 a < 1024"
proof -
  assume a: "0 < a" "a < 18014398509481984"
  have "pow2 54 = 18014398509481984" by (simp add: pow2_def)
  with a have "flog2 a < 54" by (intro flog2_less) simp_all
  then show ?thesis by simp
qed

lemma fl_of_int:
  assumes z: "\<bar>z\<bar> \<le> 9007199254740992"
  shows "fl (of_int z) = Num (of_int z)"
proof (cases "z = 0")
  case True
  then show ?thesis by (simp add: fl_def)
next
  case False
  define x :: rat where "x = of_int z"
  define e where "e = flog2 \<bar>x\<bar>"
  have x0: "x \<noteq> 0" using False by (simp add: x_def)
  have a1: "1 \<le> \<bar>x\<bar>" using False unfolding x_def by (simp flip: of_int_abs)
  have a2: "\<bar>x\<bar> \<le> 9007199254740992" using z unfolding x_def
    by (simp flip: of_int_abs)
  have e0: "0 \<le> e" unfolding e_def using a1 by (rule flog2_nonneg)
  have e54: "e < 54" unfolding e_def
  proof (rule flog2_less)
    show "0 < \<bar>x\<bar>" using x0 by simp
    show "\<bar>x\<bar> < pow2 54" using a2 by (simp add: pow2_def)
  qed
  have m: "max e (- 1022) = e" using e0 by simp
  have "\<exists>k. x / pow2 (e - 52) = of_int k"
  proof (cases "e \<le> 52")
    case True
    then have "pow2 (e - 52) = 1 / 2 ^ nat (52 - e)"
      by (cases "e = 52") (simp_all add: pow2_def)
    then have "x / pow2 (e - 52) = of_int (z * 2 ^ nat (52 - e))" by (simp add: x_def)
    then show ?thesis by blast
  next
    case False
    then have e53: "e = 53" using e54 by simp
    have "pow2 53 \<le> \<bar>x\<bar>" using flog2_lower[of "\<bar>x\<bar>"] x0 e53 by (simp add: e_def)
    then have "\<bar>x\<bar> = 9007199254740992" using a2 by (simp add: pow2_def)
    then have "\<bar>z\<bar> = 9007199254740992" unfolding x_def
      by (simp flip: of_int_abs)
    then have "z = 9007199254740992 \<or> z = - 9007199254740992" by linarith
    then have "z = 2 * (z div 2)" by auto
    then have "x = 2 * of_int (z div 2)" unfolding x_def by (metis of_int_mult of_int_numeral)
    then have "x / pow2 (e - 52) = of_int (z div 2)" using e53 by (simp add: pow2_def)
    then show ?thesis by blast
  qed
  then obtain k where k: "x / pow2 (e - 52) = of_int k" by blast
  have "of_int (roundTiesToEven (x / pow2 (e - 52))) * pow2 (e - 52) = x / pow2 (e - 52) * pow2 (e - 52)"
    by (simp only: k roundTiesToEven_of_int)
  also have "\<dots> = x" using pow2_pos[of "e - 52"] by simp
  finally have y: "x = of_int (roundTiesToEven (x / pow2 (max (flog2 \<bar>x\<bar>) (- 1022) - 52)))
               * pow2 (max (flog2 \<bar>x\<bar>) (- 1022) - 52)"
    using m by (simp add: e_def)
  have "flog2 \<bar>x\<bar> < 1024" using e54 by (simp add: e_def)
  with x0 y have "fl x = Num x" by (intro fl_eq) simp_all
  then show ?thesis by (simp add: x_def)
qed

lemma fl_div_floor:
  assumes r: "\<bar>r\<bar> < 9007199254740992" and m: "0 < m" "m \<le> 4294967296"
  shows "\<exists>y. fl (of_int r / of_int m) = Num y \<and> \<lfloor>y\<rfloor> = r div m"
proof (cases "r mod m = 0")
  case True
  then have rq: "r = (r div m) * m" by auto
  have "\<bar>r div m\<bar> \<le> \<bar>r\<bar>"
  proof -
    have "\<bar>r\<bar> = \<bar>r div m\<bar> * m" using rq m by (metis abs_mult abs_of_pos)
    moreover have "\<bar>r div m\<bar> * 1 \<le> \<bar>r div m\<bar> * m" using m by (intro mult_left_mono) simp_all
    ultimately show ?thesis by simp
  qed
  then have "\<bar>r div m\<bar> \<le> 9007199254740992" using r by simp
  then have "fl (of_int (r div m)) = Num (of_int (r div m))" by (rule fl_of_int)
  moreover have "(of_int r / of_int m :: rat) = of_int (r div m)"
    using rq m by (metis nonzero_mult_div_cancel_right of_int_0_eq_iff of_int_mult less_irrefl)
  ultimately show ?thesis by simp
next
  case False
  define q where "q = r div m"
  define f where "f = r mod m"
  define x :: rat where "x = of_int r / of_int m"
  define e where "e = max (flog2 \<bar>x\<bar>) (- 1022)"
  define u where "u = pow2 (e - 52)"
  define y where "y = of_int (roundTiesToEven (x / u)) * u"
  have mp: "(0::rat) < of_int m" using m by simp
  have f1: "1 \<le> f" "f \<le> m - 1" using False m unfolding f_def
    by (smt (verit) pos_mod_sign pos_mod_bound)+
  have "r = q * m + f" by (simp add: q_def f_def)
  then have "(of_int r :: rat) = of_int q * of_int m + of_int f" by (metis of_int_add of_int_mult)
  then have xq: "x = of_int q + of_int f / of_int m" using mp by (simp add: x_def field_simps)
  have "(1::rat) \<le> of_int f" "(of_int f :: rat) \<le> of_int m - 1"
    using f1 by (metis of_int_1 of_int_le_iff, metis of_int_1 of_int_diff of_int_le_iff)
  then have fm: "1 / of_int m \<le> (of_int f / of_int m :: rat)"
    "(of_int f / of_int m :: rat) \<le> 1 - 1 / of_int m"
    using mp by (simp_all add: field_simps)
  have lo: "of_int q + 1 / of_int m \<le> x" and hi: "x \<le> of_int q + 1 - 1 / of_int m"
    using fm by (simp_all add: xq)
  have r0: "r \<noteq> 0" using False by auto
  have x0: "x \<noteq> 0" using r0 mp by (simp add: x_def)
  have up: "0 < u" unfolding u_def by (rule pow2_pos)
  have uh: "u / 2 < 1 / of_int m"
  proof (cases "- 1022 \<le> flog2 \<bar>x\<bar>")
    case True
    then have "e = flog2 \<bar>x\<bar>" by (simp add: e_def)
    then have "pow2 e \<le> \<bar>x\<bar>" using flog2_lower[of "\<bar>x\<bar>"] x0 by simp
    moreover have "u = pow2 e * pow2 (- 52)" unfolding u_def using pow2_add[of e "- 52"] by simp
    then have "u / 2 = pow2 e / 9007199254740992" by (simp add: pow2_def)
    ultimately have "u / 2 \<le> \<bar>x\<bar> / 9007199254740992" by (simp add: divide_right_mono)
    also have "\<bar>x\<bar> = of_int \<bar>r\<bar> / of_int m" using mp by (simp add: x_def abs_divide flip: of_int_abs)
    also have "(of_int \<bar>r\<bar> :: rat) < 9007199254740992" using r by (metis of_int_less_iff of_int_numeral)
    then have "(of_int \<bar>r\<bar> / of_int m / 9007199254740992 :: rat) < 1 / of_int m"
      using mp by (simp add: field_simps)
    finally show ?thesis .
  next
    case False
    then have "e = - 1022" by (simp add: e_def)
    then have "u / 2 = 1 / 2 ^ 1075" by (simp add: u_def pow2_def)
    also have "\<dots> < (1 / 4294967296 :: rat)" by simp
    also have "\<dots> \<le> 1 / of_int m"
    proof -
      have "(of_int m :: rat) \<le> 4294967296" using m(2) by (metis of_int_le_iff of_int_numeral)
      then show ?thesis using mp by (simp add: field_simps)
    qed
    finally show ?thesis .
  qed
  have "y - x = (of_int (roundTiesToEven (x / u)) - x / u) * u"
    using up by (simp add: y_def field_simps)
  then have "\<bar>y - x\<bar> = \<bar>of_int (roundTiesToEven (x / u)) - x / u\<bar> * u"
    using up by (simp add: abs_mult)
  also have "\<dots> \<le> 1 / 2 * u"
    using roundTiesToEven_error[of "x / u"] up by (intro mult_right_mono) simp_all
  finally have err: "\<bar>y - x\<bar> \<le> u / 2" by simp
  have "x - u / 2 \<le> y" "y \<le> x + u / 2" using err by linarith+
  then have yl: "of_int q < y" and yh: "y < of_int q + 1"
    using uh lo hi by linarith+
  then have fy: "\<lfloor>y\<rfloor> = q" by (simp add: floor_unique)
  have y0: "y \<noteq> 0"
  proof
    assume "y = 0"
    with yl yh have "(of_int q :: rat) < 0" "(0 :: rat) < of_int (q + 1)" by simp_all
    then have "q < 0" "0 < q + 1" by (simp_all only: of_int_less_0_iff of_int_0_less_iff)
    then show False by simp
  qed
  have "\<bar>q\<bar> \<le> \<bar>r\<bar>"
    unfolding q_def using m by (smt (verit) div_by_1 zdiv_mono2 zdiv_mono2_neg div_nonneg_neg_le0
        pos_imp_zdiv_nonneg_iff zdiv_mono1)
  then have "\<bar>q\<bar> < 9007199254740992" using r by simp
  then have "(of_int \<bar>q\<bar> :: rat) < 9007199254740992" by (metis of_int_less_iff of_int_numeral)
  then have "\<bar>y\<bar> < 18014398509481984" using yl yh by (simp add: abs_if split: if_splits)
  with y0 have "flog2 \<bar>y\<bar> < 1024" by (intro flog2_small) simp_all
  with x0 y0 have "fl x = Num y" by (intro fl_eq) (simp_all add: y_def u_def e_def)
  with fy show ?thesis by (simp add: x_def q_def)
qed

text \<open>
  The arithmetic of the balancers on doubles gives the integers of the definitions
  above, for a manual weight up to \<open>2^52\<close> in magnitude and fewer than \<open>2^32\<close> siblings; and
  what it gives for the weight \<open>10^20\<close>.
\<close>

lemma js_sub_exact:
  assumes "\<bar>a - b\<bar> \<le> 9007199254740992"
  shows "js_sub (js_int a) (js_int b) = js_int (a - b)"
  using fl_of_int[OF assms] by (simp add: js_int_def)

lemma js_add_exact:
  assumes "\<bar>a + b\<bar> \<le> 9007199254740992"
  shows "js_add (js_int a) (js_int b) = js_int (a + b)"
  using fl_of_int[OF assms] by (simp add: js_int_def)

lemma js_mul_exact:
  assumes "\<bar>a * b\<bar> \<le> 9007199254740992"
  shows "js_mul (js_int a) (js_int b) = js_int (a * b)"
  using fl_of_int[OF assms] by (simp add: js_int_def)

lemma js_floor_div_exact:
  assumes "\<bar>r\<bar> < 9007199254740992" "0 < m" "m \<le> 4294967296"
  shows "Math_floor (js_div (js_int r) (js_int m)) = js_int (r div m)"
proof -
  from fl_div_floor[OF assms] obtain y where
    "fl (of_int r / of_int m) = Num y" "\<lfloor>y\<rfloor> = r div m" by blast
  then show ?thesis using assms(2) by (simp add: js_int_def)
qed

lemma balancer_doubles_exact:
  fixes w :: int and n index :: nat
  assumes w: "\<bar>w\<bar> \<le> 4503599627370496" and n: "0 < n" "n < 4294967296"
  defines "r \<equiv> 100 - w"
  shows "js_sub (js_int 100) (js_int w) = js_int r"
    and "js_equalWeight (js_int r) n = js_int (r div int n)"
    and "js_remainder (js_int r) n = js_int (r - r div int n * int n)"
    and "js_balancedWeight (js_int r) n index
           = js_int (r div int n + (if int index < r - r div int n * int n then 1 else 0))"
proof -
  have r: "\<bar>r\<bar> \<le> 4503599627370596" using w by (simp add: r_def)
  have np: "0 < int n" "int n \<le> 4294967296" using n by simp_all
  show 1: "js_sub (js_int 100) (js_int w) = js_int r"
    unfolding r_def using w by (intro js_sub_exact) simp
  show 2: "js_equalWeight (js_int r) n = js_int (r div int n)"
    unfolding js_equalWeight_def using r np by (intro js_floor_div_exact) simp_all
  have f: "0 \<le> r mod int n" "r mod int n < int n" using np by simp_all
  have qn: "r div int n * int n = r - r mod int n"
    by (simp add: minus_mod_eq_div_mult)
  have "\<bar>r div int n * int n\<bar> \<le> 9007199254740992" unfolding qn using r f np by linarith
  then have m: "js_mul (js_int (r div int n)) (js_int (int n)) = js_int (r div int n * int n)"
    by (rule js_mul_exact)
  have "\<bar>r - r div int n * int n\<bar> \<le> 9007199254740992" unfolding qn using f np by linarith
  then show 3: "js_remainder (js_int r) n = js_int (r - r div int n * int n)"
    unfolding js_remainder_def 2 m by (rule js_sub_exact)
  have q: "\<bar>r div int n\<bar> \<le> \<bar>r\<bar>"
    using np by (smt (verit) div_by_1 zdiv_mono2 zdiv_mono2_neg div_nonneg_neg_le0
        pos_imp_zdiv_nonneg_iff zdiv_mono1)
  have a1: "js_add (js_int (r div int n)) (js_int 1) = js_int (r div int n + 1)"
    using q r by (intro js_add_exact) linarith
  have a0: "js_add (js_int (r div int n)) (js_int 0) = js_int (r div int n + 0)"
    using q r by (intro js_add_exact) linarith
  have l: "js_less (js_int (int index)) (js_int (r - r div int n * int n))
             = (int index < r - r div int n * int n)"
    by (simp only: js_int_def js_less.simps of_int_less_iff)
  have c: "Num 1 = js_int 1" "Num 0 = js_int 0" by (simp_all add: js_int_def)
  show "js_balancedWeight (js_int r) n index
           = js_int (r div int n + (if int index < r - r div int n * int n then 1 else 0))"
    unfolding js_balancedWeight_def 2 3 l c using a1 a0 by simp
qed

lemma balancer_doubles_beyond:
  "js_sub (js_int 100) (js_int 100000000000000000000) = js_int (- 100000000000000000000) \<and>
   js_balancedWeight (js_int (- 100000000000000000000)) 2 0 = js_int (- 50000000000000000000) \<and>
   js_balancedWeight (js_int (- 100000000000000000000)) 2 1 = js_int (- 50000000000000000000)"
  by code_simp


subsection \<open>Array helpers\<close>

lemma map_forEachIndexed:
  assumes "\<And>k x. g (f k x) = h k"
  shows "map g (forEachIndexed f i xs) = map h [i..<i + length xs]"
proof (induction xs arbitrary: i)
  case Nil
  then show ?case by simp
next
  case (Cons x xs)
  have "[i..<i + length (x # xs)] = i # [Suc i..<Suc i + length xs]"
    using upt_conv_Cons[of i "i + length (x # xs)"] by simp
  with Cons assms show ?case by simp
qed

lemma sum_share_upt:
  "0 \<le> r \<Longrightarrow> sum_list (map (share base r) [0..<n]) = int n * base + min (int n) r"
  by (induction n) (auto simp: share_def algebra_simps min_def)

lemma sum_share_100:
  assumes "0 < n"
  shows "sum_list (map (share (t div int n) (t - (t div int n) * int n)) [0..<n]) = t"
proof -
  have r: "t - (t div int n) * int n = t mod int n"
    by (simp add: minus_div_mult_eq_mod)
  have "0 \<le> t mod int n" "t mod int n < int n" using assms by simp_all
  then show ?thesis
    unfolding r using sum_share_upt[of "t mod int n" "t div int n" n] by (simp add: min_def)
qed

lemma share_diff: "\<bar>share base r i - share base r j\<bar> \<le> 1"
  by (simp add: share_def)

lemma spec_split_share:
  "spec_split amount n = map (share (amount div int n) (amount - (amount div int n) * int n)) [0..<n]"
  by (simp add: spec_split_def share_def Let_def)

lemma sum_spec_split: "0 < n \<Longrightarrow> sum_list (spec_split amount n) = amount"
  by (simp add: spec_split_share sum_share_100)

lemma spec_split_spread:
  "a \<in> set (spec_split amount n) \<Longrightarrow> b \<in> set (spec_split amount n) \<Longrightarrow> \<bar>a - b\<bar> \<le> 1"
  unfolding spec_split_share using share_diff by auto

lemma spec_split_nonneg:
  assumes "0 \<le> amount" "a \<in> set (spec_split amount n)"
  shows "0 \<le> a"
proof -
  have "0 \<le> amount div int n" using assms(1) by (simp add: pos_imp_zdiv_nonneg_iff div_int_pos_iff)
  then show ?thesis using assms(2) by (auto simp: spec_split_def Let_def)
qed

lemma weights_autoBalanceObjectives:
  "objectives d \<noteq> [] \<Longrightarrow>
   map weight (objectives (autoBalanceObjectiveWeights d)) = spec_split 100 (length (objectives d))"
  by (simp add: autoBalanceObjectiveWeights_def Let_def spec_split_def
        map_forEachIndexed[where h = "\<lambda>k. 100 div int (length (objectives d)) +
           (if int k < 100 - 100 div int (length (objectives d)) * int (length (objectives d)) then 1 else 0)"])

lemma find_updateFirst:
  "(\<And>x. p x \<Longrightarrow> p (f x)) \<Longrightarrow> find p (updateFirst p f xs) = map_option f (find p xs)"
  by (induction xs) auto

lemma weights_autoBalanceKRs:
  assumes "find (\<lambda>ob. obj_id ob = oid) (objectives d) = Some obj" "keyResults obj \<noteq> []"
  shows "\<exists>obj'. find (\<lambda>ob. obj_id ob = oid) (objectives (autoBalanceKRWeights oid d)) = Some obj' \<and>
           map kr_weight (keyResults obj') = spec_split 100 (length (keyResults obj))"
  using assms
  by (simp add: autoBalanceKRWeights_def Let_def spec_split_def find_updateFirst
        map_forEachIndexed[where h = "\<lambda>k. 100 div int (length (keyResults obj)) +
           (if int k < 100 - 100 div int (length (keyResults obj)) * int (length (keyResults obj)) then 1 else 0)"])

text \<open>
  C1. Equal auto-balance. With no sibling the balancer changes nothing. With \<open>n \<ge> 1\<close>
  siblings (the objectives of the document, or the key results of the objective found
  by id), the weights after the pass are, in collection order, \<open>floor(100/n)\<close> plus one
  for the first \<open>100 - n * floor(100/n)\<close> siblings; they sum to 100 and any two differ by
  at most 1.
\<close>

theorem equal_auto_balance:
  "(objectives d = [] \<longrightarrow> autoBalanceObjectiveWeights d = d) \<and>
   (objectives d \<noteq> [] \<longrightarrow>
      map weight (objectives (autoBalanceObjectiveWeights d)) = spec_split 100 (length (objectives d)) \<and>
      sum_list (map weight (objectives (autoBalanceObjectiveWeights d))) = 100 \<and>
      (\<forall>a \<in> set (objectives (autoBalanceObjectiveWeights d)).
         \<forall>b \<in> set (objectives (autoBalanceObjectiveWeights d)). \<bar>weight a - weight b\<bar> \<le> 1)) \<and>
   (find (\<lambda>ob. obj_id ob = oid) (objectives d) = None \<longrightarrow> autoBalanceKRWeights oid d = d) \<and>
   (\<forall>obj. find (\<lambda>ob. obj_id ob = oid) (objectives d) = Some obj \<longrightarrow>
      (keyResults obj = [] \<longrightarrow> autoBalanceKRWeights oid d = d) \<and>
      (keyResults obj \<noteq> [] \<longrightarrow>
         (\<exists>obj'. find (\<lambda>ob. obj_id ob = oid) (objectives (autoBalanceKRWeights oid d)) = Some obj' \<and>
            map kr_weight (keyResults obj') = spec_split 100 (length (keyResults obj)) \<and>
            sum_list (map kr_weight (keyResults obj')) = 100 \<and>
            (\<forall>a \<in> set (keyResults obj'). \<forall>b \<in> set (keyResults obj'). \<bar>kr_weight a - kr_weight b\<bar> \<le> 1))))"
proof (intro conjI impI allI)
  show "autoBalanceObjectiveWeights d = d" if "objectives d = []"
    using that by (simp add: autoBalanceObjectiveWeights_def)
next
  assume ne: "objectives d \<noteq> []"
  let ?ws = "map weight (objectives (autoBalanceObjectiveWeights d))"
  show eq: "?ws = spec_split 100 (length (objectives d))"
    using ne by (rule weights_autoBalanceObjectives)
  show "sum_list ?ws = 100"
    unfolding eq using ne by (simp add: sum_spec_split)
  show "\<forall>a \<in> set (objectives (autoBalanceObjectiveWeights d)).
         \<forall>b \<in> set (objectives (autoBalanceObjectiveWeights d)). \<bar>weight a - weight b\<bar> \<le> 1"
  proof (intro ballI)
    fix a b
    assume "a \<in> set (objectives (autoBalanceObjectiveWeights d))"
      "b \<in> set (objectives (autoBalanceObjectiveWeights d))"
    then have "weight a \<in> set ?ws" "weight b \<in> set ?ws" by auto
    then show "\<bar>weight a - weight b\<bar> \<le> 1"
      unfolding eq by (rule spec_split_spread)
  qed
next
  show "autoBalanceKRWeights oid d = d" if "find (\<lambda>ob. obj_id ob = oid) (objectives d) = None"
    using that by (simp add: autoBalanceKRWeights_def)
next
  fix obj
  assume f: "find (\<lambda>ob. obj_id ob = oid) (objectives d) = Some obj"
  show "autoBalanceKRWeights oid d = d" if "keyResults obj = []"
    using that f by (simp add: autoBalanceKRWeights_def)
  assume ne: "keyResults obj \<noteq> []"
  from weights_autoBalanceKRs[OF f ne] obtain obj' where
    f': "find (\<lambda>ob. obj_id ob = oid) (objectives (autoBalanceKRWeights oid d)) = Some obj'"
    and eq: "map kr_weight (keyResults obj') = spec_split 100 (length (keyResults obj))"
    by blast
  have s: "sum_list (map kr_weight (keyResults obj')) = 100"
    unfolding eq using ne by (simp add: sum_spec_split)
  have "\<bar>kr_weight a - kr_weight b\<bar> \<le> 1"
    if "a \<in> set (keyResults obj')" "b \<in> set (keyResults obj')" for a b
  proof -
    from that have "kr_weight a \<in> set (map kr_weight (keyResults obj'))"
      "kr_weight b \<in> set (map kr_weight (keyResults obj'))" by auto
    then show ?thesis unfolding eq by (rule spec_split_spread)
  qed
  with f' eq s
  show "\<exists>obj'. find (\<lambda>ob. obj_id ob = oid) (objectives (autoBalanceKRWeights oid d)) = Some obj' \<and>
            map kr_weight (keyResults obj') = spec_split 100 (length (keyResults obj)) \<and>
            sum_list (map kr_weight (keyResults obj')) = 100 \<and>
            (\<forall>a \<in> set (keyResults obj'). \<forall>b \<in> set (keyResults obj'). \<bar>kr_weight a - kr_weight b\<bar> \<le> 1)"
    by blast
qed

theorem equal_auto_balance_witness:
  "map weight (objectives (autoBalanceObjectiveWeights exDoc)) = [34, 33, 33] \<and>
   sum_list (map weight (objectives (autoBalanceObjectiveWeights exDoc))) = 100 \<and>
   (\<exists>obj'. find (\<lambda>ob. obj_id ob = ''a'') (objectives (autoBalanceKRWeights ''a'' exDoc)) = Some obj' \<and>
      map kr_weight (keyResults obj') = [50, 50] \<and>
      sum_list (map kr_weight (keyResults obj')) = 100)"
proof -
  note t = equal_auto_balance[of exDoc "''a''"]
  have ne: "objectives exDoc \<noteq> []"
    by (simp add: exDoc_def)
  have f: "find (\<lambda>ob. obj_id ob = ''a'') (objectives exDoc)
             = Some (exObj ''a'' 34 [exKR ''k1'' 50 100 50, exKR ''k2'' 30 100 50])"
    by (simp add: exDoc_def exObj_def)
  have k: "keyResults (exObj ''a'' 34 [exKR ''k1'' 50 100 50, exKR ''k2'' 30 100 50]) \<noteq> []"
    by (simp add: exObj_def)
  have l: "length (objectives exDoc) = 3"
    "length (keyResults (exObj ''a'' 34 [exKR ''k1'' 50 100 50, exKR ''k2'' 30 100 50])) = 2"
    by (simp_all add: exDoc_def exObj_def)
  have s3: "spec_split 100 3 = [34, 33, 33]"
    by (simp add: spec_split_def Let_def upt_rec)
  have s2: "spec_split 100 2 = [50, 50]"
    by (simp add: spec_split_def Let_def upt_rec)
  from t ne have "map weight (objectives (autoBalanceObjectiveWeights exDoc)) = spec_split 100 3"
    "sum_list (map weight (objectives (autoBalanceObjectiveWeights exDoc))) = 100"
    unfolding l by blast+
  moreover from t f k
  have "\<exists>obj'. find (\<lambda>ob. obj_id ob = ''a'') (objectives (autoBalanceKRWeights ''a'' exDoc)) = Some obj' \<and>
      map kr_weight (keyResults obj') =
        spec_split 100 (length (keyResults (exObj ''a'' 34 [exKR ''k1'' 50 100 50, exKR ''k2'' 30 100 50]))) \<and>
      sum_list (map kr_weight (keyResults obj')) = 100"
    by blast
  ultimately show ?thesis
    unfolding l s3 s2 by blast
qed

subsection \<open>Manual-set rebalance\<close>

lemma filter_updateFirst:
  assumes "\<And>x. q x \<Longrightarrow> \<not> p x \<and> \<not> p (f x)"
  shows "filter p (updateFirst q f xs) = filter p xs"
  using assms by (induction xs) auto

lemma map_filter_forEachFiltered:
  assumes "\<And>k x. p x \<Longrightarrow> p (f k x)" "\<And>k x. g (f k x) = h k"
  shows "map g (filter p (forEachFiltered p f i xs)) = map h [i..<i + length (filter p xs)]"
proof (induction xs arbitrary: i)
  case Nil
  then show ?case by simp
next
  case (Cons x xs)
  show ?case
  proof (cases "p x")
    case True
    have "[i..<i + Suc (length (filter p xs))] = i # [Suc i..<Suc i + length (filter p xs)]"
      using upt_conv_Cons[of i "i + Suc (length (filter p xs))"] by simp
    with True Cons[of "Suc i"] assms show ?thesis by simp
  next
    case False
    with Cons[of i] show ?thesis by simp
  qed
qed

lemma find_forEachFiltered:
  assumes "\<And>k x. p x \<Longrightarrow> \<not> q (f k x)" "\<And>x. q x \<Longrightarrow> \<not> p x"
  shows "find q (forEachFiltered p f i xs) = find q xs"
  using assms by (induction xs arbitrary: i) auto

lemma map_forEachFiltered_frame:
  assumes "\<And>k x. c (f k x) = c x"
  shows "map c (forEachFiltered p f i xs) = map c xs"
  using assms by (induction xs arbitrary: i) auto

lemma map_updateFirst_frame:
  assumes "\<And>x. c (f x) = c x"
  shows "map c (updateFirst p f xs) = map c xs"
  using assms by (induction xs) auto

lemma find_Some_filter: "find p xs = Some x \<Longrightarrow> filter p xs \<noteq> []"
  by (induction xs) (auto split: if_splits)

lemma two_kinds_length:
  assumes "find p xs = Some x" "filter (\<lambda>y. \<not> p y) xs \<noteq> []"
  shows "1 < length xs"
proof -
  have "0 < length (filter p xs)" using find_Some_filter[OF assms(1)] by simp
  moreover have "0 < length (filter (\<lambda>y. \<not> p y) xs)" using assms(2) by simp
  moreover have "length xs = length (filter p xs) + length (filter (\<lambda>y. \<not> p y) xs)"
    by (simp add: sum_length_filter_compl)
  ultimately show ?thesis by linarith
qed

lemma objectives_addHistoryEntry [simp]:
  "objectives (addHistoryEntry eid now ty ity iid itl chg grp d) = objectives d"
  by (simp add: addHistoryEntry_def Let_def)

lemma objectives_recordProgressSnapshot [simp]:
  "objectives (recordProgressSnapshot e d) = objectives d"
  by (simp add: recordProgressSnapshot_def Let_def)

lemma history_balanceOtherObjectives [simp]:
  "history (balanceOtherObjectives i w d) = history d"
  by (simp add: balanceOtherObjectives_def Let_def)

lemma objectives_balanceOtherObjectives:
  "objectives (balanceOtherObjectives i w d) =
     (if length (objectives d) \<le> 1 \<or> filter (\<lambda>ob. obj_id ob \<noteq> i) (objectives d) = []
      then objectives d
      else forEachFiltered (\<lambda>ob. obj_id ob \<noteq> i)
             (\<lambda>index obj. obj\<lparr>weight :=
                share ((100 - w) div int (length (filter (\<lambda>ob. obj_id ob \<noteq> i) (objectives d))))
                  (100 - w - (100 - w) div int (length (filter (\<lambda>ob. obj_id ob \<noteq> i) (objectives d)))
                     * int (length (filter (\<lambda>ob. obj_id ob \<noteq> i) (objectives d)))) index\<rparr>)
             0 (objectives d))"
  by (simp add: balanceOtherObjectives_def Let_def share_def)

lemma obj_id_assignObjective [simp]: "obj_id (assignObjective fd ob) = obj_id ob"
  by (simp add: assignObjective_def)

lemma weight_assignObjective [simp]: "weight (assignObjective fd ob) = fd_weight fd"
  by (simp add: assignObjective_def)

lemma objectives_saveObjective_edit:
  assumes "fd_editId fd \<noteq> []"
    and "find (\<lambda>ob. obj_id ob = fd_editId fd) (objectives d) = Some obj"
  shows "objectives (saveObjective True fd e d) =
     (if weight obj \<noteq> fd_weight fd
      then objectives (balanceOtherObjectives (fd_editId fd) (fd_weight fd)
             (d\<lparr>objectives := updateFirst (\<lambda>ob. obj_id ob = fd_editId fd) (assignObjective fd) (objectives d)\<rparr>))
      else updateFirst (\<lambda>ob. obj_id ob = fd_editId fd) (assignObjective fd) (objectives d))"
  using assms
  by (simp add: saveObjective_def Let_def objectives_balanceOtherObjectives)

lemma manual_rebalance_objectives:
  assumes ed: "fd_editId fd \<noteq> []"
    and f: "find (\<lambda>ob. obj_id ob = fd_editId fd) (objectives d) = Some obj"
    and w: "weight obj \<noteq> fd_weight fd"
  shows "find (\<lambda>ob. obj_id ob = fd_editId fd) (objectives (saveObjective True fd e d))
           = Some (assignObjective fd obj)"
    and "map obj_id (objectives (saveObjective True fd e d)) = map obj_id (objectives d)"
    and "filter (\<lambda>ob. obj_id ob \<noteq> fd_editId fd) (objectives d) \<noteq> [] \<Longrightarrow>
         map weight (filter (\<lambda>ob. obj_id ob \<noteq> fd_editId fd) (objectives (saveObjective True fd e d)))
           = spec_split (100 - fd_weight fd)
               (length (filter (\<lambda>ob. obj_id ob \<noteq> fd_editId fd) (objectives d)))"
    and "filter (\<lambda>ob. obj_id ob \<noteq> fd_editId fd) (objectives d) = [] \<Longrightarrow>
         objectives (saveObjective True fd e d)
           = updateFirst (\<lambda>ob. obj_id ob = fd_editId fd) (assignObjective fd) (objectives d)"
proof -
  let ?i = "fd_editId fd"
  let ?P = "\<lambda>ob. obj_id ob = ?i"
  let ?O = "\<lambda>ob. obj_id ob \<noteq> ?i"
  let ?xs = "updateFirst ?P (assignObjective fd) (objectives d)"
  let ?d' = "saveObjective True fd e d"
  have fxs: "find ?P ?xs = Some (assignObjective fd obj)"
    using f by (simp add: find_updateFirst)
  have oxs: "filter ?O ?xs = filter ?O (objectives d)"
    by (rule filter_updateFirst) simp
  have ids: "map obj_id ?xs = map obj_id (objectives d)"
    by (rule map_updateFirst_frame) simp
  have objs: "objectives ?d' =
     (if length ?xs \<le> 1 \<or> filter ?O ?xs = [] then ?xs
      else forEachFiltered ?O
             (\<lambda>index obj. obj\<lparr>weight :=
                share ((100 - fd_weight fd) div int (length (filter ?O ?xs)))
                  (100 - fd_weight fd - (100 - fd_weight fd) div int (length (filter ?O ?xs))
                     * int (length (filter ?O ?xs))) index\<rparr>)
             0 ?xs)"
    using w by (simp add: objectives_saveObjective_edit[OF ed f] objectives_balanceOtherObjectives)
  show "find ?P (objectives ?d') = Some (assignObjective fd obj)"
    unfolding objs using fxs by (simp add: find_forEachFiltered)
  show "map obj_id (objectives ?d') = map obj_id (objectives d)"
    unfolding objs using ids by (simp add: map_forEachFiltered_frame)
  show "objectives ?d' = ?xs" if "filter ?O (objectives d) = []"
    unfolding objs using that oxs by simp
  show "map weight (filter ?O (objectives ?d'))
           = spec_split (100 - fd_weight fd) (length (filter ?O (objectives d)))"
    if ne: "filter ?O (objectives d) \<noteq> []"
  proof -
    have "filter (\<lambda>y. \<not> ?P y) ?xs \<noteq> []" using ne oxs by simp
    from two_kinds_length[OF fxs this] have "\<not> length ?xs \<le> 1" by simp
    with ne oxs have "objectives ?d' = forEachFiltered ?O
             (\<lambda>index obj. obj\<lparr>weight :=
                share ((100 - fd_weight fd) div int (length (filter ?O ?xs)))
                  (100 - fd_weight fd - (100 - fd_weight fd) div int (length (filter ?O ?xs))
                     * int (length (filter ?O ?xs))) index\<rparr>)
             0 ?xs"
      unfolding objs by simp
    then show ?thesis
      by (simp add: map_filter_forEachFiltered[where h = "share ((100 - fd_weight fd) div int (length (filter ?O ?xs)))
                  (100 - fd_weight fd - (100 - fd_weight fd) div int (length (filter ?O ?xs))
                     * int (length (filter ?O ?xs)))"] spec_split_share oxs)
  qed
qed

lemma history_balanceOtherKRs [simp]:
  "history (balanceOtherKRs oid kid w d) = history d"
  by (simp add: balanceOtherKRs_def Let_def split: option.splits)

lemma objectives_balanceOtherKRs:
  assumes "find (\<lambda>ob. obj_id ob = oid) (objectives d) = Some obj"
  shows "objectives (balanceOtherKRs oid kid w d) =
     (if length (keyResults obj) \<le> 1 \<or> filter (\<lambda>kr. kr_id kr \<noteq> kid) (keyResults obj) = []
      then objectives d
      else updateFirst (\<lambda>ob. obj_id ob = oid)
             (\<lambda>ob. ob\<lparr>keyResults :=
                forEachFiltered (\<lambda>kr. kr_id kr \<noteq> kid)
                  (\<lambda>index kr. kr\<lparr>kr_weight :=
                     share ((100 - w) div int (length (filter (\<lambda>kr. kr_id kr \<noteq> kid) (keyResults obj))))
                       (100 - w - (100 - w) div int (length (filter (\<lambda>kr. kr_id kr \<noteq> kid) (keyResults obj)))
                          * int (length (filter (\<lambda>kr. kr_id kr \<noteq> kid) (keyResults obj)))) index\<rparr>)
                  0 (keyResults ob)\<rparr>)
             (objectives d))"
  using assms by (simp add: balanceOtherKRs_def Let_def share_def)

lemma kr_id_assignKeyResult [simp]:
  "kr_id (assignKeyResult ttl tgt sDate tDate wgt stat conf lastC evid comm kr) = kr_id kr"
  by (simp add: assignKeyResult_def)

lemma kr_weight_assignKeyResult [simp]:
  "kr_weight (assignKeyResult ttl tgt sDate tDate wgt stat conf lastC evid comm kr) = wgt"
  by (simp add: assignKeyResult_def)

lemma objectives_saveKeyResult_edit:
  assumes "find (\<lambda>ob. obj_id ob = oid) (objectives d) = Some objective"
    and "editId \<noteq> []"
    and "find (\<lambda>k. kr_id k = editId) (keyResults objective) = Some kr"
  shows "objectives (saveKeyResult oid ttl tgt sDate tDate wgt stat conf lastC evid comm editId e d) =
     (if kr_weight kr \<noteq> wgt
      then objectives (balanceOtherKRs oid editId wgt
             (d\<lparr>objectives := updateFirst (\<lambda>ob. obj_id ob = oid)
                  (\<lambda>ob. ob\<lparr>keyResults := updateFirst (\<lambda>k. kr_id k = editId)
                     (assignKeyResult ttl tgt sDate tDate wgt stat conf lastC evid comm)
                     (keyResults ob)\<rparr>) (objectives d)\<rparr>))
      else updateFirst (\<lambda>ob. obj_id ob = oid)
                  (\<lambda>ob. ob\<lparr>keyResults := updateFirst (\<lambda>k. kr_id k = editId)
                     (assignKeyResult ttl tgt sDate tDate wgt stat conf lastC evid comm)
                     (keyResults ob)\<rparr>) (objectives d))"
proof -
  have bal: "objectives (balanceOtherKRs oid editId wgt (addHistoryEntry a b c f g h i j d0))
        = objectives (balanceOtherKRs oid editId wgt d0)" for a b c f g h i j d0
    by (simp add: balanceOtherKRs_def Let_def split: option.splits)
  show ?thesis
    using assms by (simp add: saveKeyResult_def Let_def bal)
qed

lemma manual_rebalance_keyResults:
  assumes fo: "find (\<lambda>ob. obj_id ob = oid) (objectives d) = Some objective"
    and ed: "editId \<noteq> []"
    and fk: "find (\<lambda>k. kr_id k = editId) (keyResults objective) = Some kr"
    and w: "kr_weight kr \<noteq> wgt"
  shows "\<exists>krs. find (\<lambda>ob. obj_id ob = oid)
                 (objectives (saveKeyResult oid ttl tgt sDate tDate wgt stat conf lastC evid comm editId e d))
               = Some (objective\<lparr>keyResults := krs\<rparr>) \<and>
           find (\<lambda>k. kr_id k = editId) krs
             = Some (assignKeyResult ttl tgt sDate tDate wgt stat conf lastC evid comm kr) \<and>
           map kr_id krs = map kr_id (keyResults objective) \<and>
           (filter (\<lambda>k. kr_id k \<noteq> editId) (keyResults objective) \<noteq> [] \<longrightarrow>
              map kr_weight (filter (\<lambda>k. kr_id k \<noteq> editId) krs)
                = spec_split (100 - wgt) (length (filter (\<lambda>k. kr_id k \<noteq> editId) (keyResults objective)))) \<and>
           (filter (\<lambda>k. kr_id k \<noteq> editId) (keyResults objective) = [] \<longrightarrow>
              krs = updateFirst (\<lambda>k. kr_id k = editId)
                      (assignKeyResult ttl tgt sDate tDate wgt stat conf lastC evid comm)
                      (keyResults objective))"
proof -
  let ?P = "\<lambda>ob. obj_id ob = oid"
  let ?Q = "\<lambda>k. kr_id k = editId"
  let ?O = "\<lambda>k. kr_id k \<noteq> editId"
  let ?asg = "assignKeyResult ttl tgt sDate tDate wgt stat conf lastC evid comm"
  let ?ks = "updateFirst ?Q ?asg (keyResults objective)"
  let ?xs = "updateFirst ?P (\<lambda>ob. ob\<lparr>keyResults := updateFirst ?Q ?asg (keyResults ob)\<rparr>) (objectives d)"
  let ?d' = "saveKeyResult oid ttl tgt sDate tDate wgt stat conf lastC evid comm editId e d"
  let ?m = "length (filter ?O ?ks)"
  let ?h = "share ((100 - wgt) div int ?m) (100 - wgt - (100 - wgt) div int ?m * int ?m)"
  let ?bal = "\<lambda>ob. ob\<lparr>keyResults := forEachFiltered ?O (\<lambda>index kr. kr\<lparr>kr_weight := ?h index\<rparr>) 0 (keyResults ob)\<rparr>"
  have fxs: "find ?P ?xs = Some (objective\<lparr>keyResults := ?ks\<rparr>)"
    using fo by (simp add: find_updateFirst)
  have fks: "find ?Q ?ks = Some (?asg kr)"
    using fk by (simp add: find_updateFirst)
  have oks: "filter ?O ?ks = filter ?O (keyResults objective)"
    by (rule filter_updateFirst) simp
  have ids: "map kr_id ?ks = map kr_id (keyResults objective)"
    by (rule map_updateFirst_frame) simp
  have objs: "objectives ?d' =
     (if length ?ks \<le> 1 \<or> filter ?O ?ks = [] then ?xs else updateFirst ?P ?bal ?xs)"
    using w objectives_balanceOtherKRs[of oid "d\<lparr>objectives := ?xs\<rparr>" "objective\<lparr>keyResults := ?ks\<rparr>" editId wgt] fxs
    by (simp add: objectives_saveKeyResult_edit[OF fo ed fk])
  show ?thesis
  proof (cases "filter ?O (keyResults objective) = []")
    case True
    then have "objectives ?d' = ?xs" unfolding objs using oks by simp
    with fxs fks ids True show ?thesis by auto
  next
    case False
    then have "filter (\<lambda>y. \<not> ?Q y) ?ks \<noteq> []" using oks by simp
    from two_kinds_length[OF fks this] have "\<not> length ?ks \<le> 1" by simp
    with False oks have o2: "objectives ?d' = updateFirst ?P ?bal ?xs"
      unfolding objs by simp
    let ?krs = "forEachFiltered ?O (\<lambda>index kr. kr\<lparr>kr_weight := ?h index\<rparr>) 0 ?ks"
    have "find ?P (updateFirst ?P ?bal ?xs) = map_option ?bal (find ?P ?xs)"
      by (rule find_updateFirst) simp
    then have 1: "find ?P (objectives ?d') = Some (objective\<lparr>keyResults := ?krs\<rparr>)"
      unfolding o2 fxs by simp
    have 2: "find ?Q ?krs = Some (?asg kr)"
      using fks by (simp add: find_forEachFiltered)
    have 3: "map kr_id ?krs = map kr_id (keyResults objective)"
      using ids by (simp add: map_forEachFiltered_frame)
    have 4: "map kr_weight (filter ?O ?krs)
               = spec_split (100 - wgt) (length (filter ?O (keyResults objective)))"
      by (simp add: map_filter_forEachFiltered[where h = ?h] spec_split_share oks)
    from 1 2 3 4 False show ?thesis by blast
  qed
qed





subsection \<open>History log and progress calculator\<close>

lemma history_addHistoryEntry:
  "history (addHistoryEntry eid now ty ity iid itl chg grp d) =
     \<lparr>h_id = eid, timestamp = now, h_type = ty, itemType = ity, itemId = iid,
      itemTitle = itl, h_changes = chg, h_group = grp\<rparr> # take 999 (history d)"
  by (simp add: addHistoryEntry_def Let_def take_Cons_numeral)

text \<open>
  C5. History log capacity. \<^verbatim>\<open>addHistoryEntry\<close> puts the new entry at the front; the
  result is the new entry followed by the first 999 entries of the old log, so its
  length never exceeds 1000 whatever the old length was, and what is dropped is the
  tail of the old log from position 999 on (the entries appended longest ago,
  whatever their timestamps). The objectives are not touched.
\<close>

theorem history_capacity:
  "history (addHistoryEntry eid now ty ity iid itl chg grp d) =
     \<lparr>h_id = eid, timestamp = now, h_type = ty, itemType = ity, itemId = iid,
      itemTitle = itl, h_changes = chg, h_group = grp\<rparr> # take 999 (history d) \<and>
   length (history (addHistoryEntry eid now ty ity iid itl chg grp d)) \<le> 1000 \<and>
   history (addHistoryEntry eid now ty ity iid itl chg grp d) @ drop 999 (history d) =
     \<lparr>h_id = eid, timestamp = now, h_type = ty, itemType = ity, itemId = iid,
      itemTitle = itl, h_changes = chg, h_group = grp\<rparr> # history d \<and>
   objectives (addHistoryEntry eid now ty ity iid itl chg grp d) = objectives d"
  by (simp add: addHistoryEntry_def Let_def take_Cons_numeral)

text \<open>
  C6. A key result with target 0 and current 0: \<^verbatim>\<open>0 / 0\<close> is \<^verbatim>\<open>NaN\<close>, and \<^verbatim>\<open>NaN\<close> goes through
  \<^verbatim>\<open>Math.round\<close> and \<^verbatim>\<open>Math.min\<close>, so both the progress of the key result and the progress
  of its objective are \<^verbatim>\<open>NaN\<close>, not 0. Such a key result is what \<^verbatim>\<open>saveKeyResult\<close> adds for
  the target 0: after adding one to the second objective of the example document, the
  progress values of the three objectives are 40, \<^verbatim>\<open>NaN\<close> and 0.
\<close>

theorem zero_target_progress:
  "krProgress (exKR ''k0'' 0 0 100) = NaN \<and>
   calculateProgress exObjZero = NaN \<and>
   map calculateProgress
     (objectives (saveKeyResult ''b'' ''t'' 0 [] [] 100 [] [] [] [] [] [] exEnv exDoc))
     = [Num 40, NaN, Num 0]"
  by code_simp

subsection \<open>Objective progress\<close>

text \<open>
  The double arithmetic at work: \<^verbatim>\<open>23 / 40 * 100\<close> is \<^verbatim>\<open>57.49999999999999\<close> and rounds to 57;
  the key results 10/30 and 110/120 give 62, where the exact mean 62.5 would round to
  63; and \<^verbatim>\<open>2^54 + 10\<close> is the double \<^verbatim>\<open>18014398509481992\<close>.
\<close>

lemma krProgress_double_rounding: "krProgress (exKR ''k'' 23 40 100) = Num 57"
  by code_simp

lemma calculateProgress_double_rounding:
  "calculateProgress (exObj ''a'' 100 [exKR ''k1'' 10 30 50, exKR ''k2'' 110 120 50]) = Num 62"
  by code_simp

lemma js_add_int_rounding: "js_add_int (2 ^ 54) 10 = 18014398509481992"
  by code_simp

lemma Math_round_shape:
  "Math_round x = NaN \<or> Math_round x = PosInfinity \<or> Math_round x = NegInfinity \<or>
   (\<exists>k. Math_round x = Num (of_int k))"
  by (cases x) auto






subsection \<open>Manual weight edits beyond the range\<close>

lemma sum_list_filter_split:
  "sum_list (map g xs) =
     sum_list (map g (filter p xs)) + sum_list (map g (filter (\<lambda>x. \<not> p x) xs))"
  for g :: "'a \<Rightarrow> int"
  by (induction xs) auto

lemma filter_key_distinct:
  "distinct (map k xs) \<Longrightarrow> find (\<lambda>x. k x = i) xs = Some y \<Longrightarrow> filter (\<lambda>x. k x = i) xs = [y]"
proof (induction xs)
  case Nil
  then show ?case by simp
next
  case (Cons x xs)
  show ?case
  proof (cases "k x = i")
    case True
    from True Cons.prems(2) have "y = x" by simp
    from Cons.prems(1) have "k x \<notin> k ` set xs" by simp
    with True have "\<forall>z \<in> set xs. k z \<noteq> i" by blast
    then have "filter (\<lambda>x. k x = i) xs = []" by (simp add: filter_empty_conv)
    with True \<open>y = x\<close> show ?thesis by simp
  next
    case False
    with Cons show ?thesis by simp
  qed
qed

lemma balanced_sum:
  fixes g :: "'a \<Rightarrow> int"
  assumes d: "distinct (map k xs)"
    and f: "find (\<lambda>x. k x = i) xs = Some y"
    and o: "map g (filter (\<lambda>x. k x \<noteq> i) xs) = spec_split (100 - g y) m"
    and m: "0 < m"
  shows "sum_list (map g xs) = 100"
proof -
  have "sum_list (map g xs) =
      sum_list (map g (filter (\<lambda>x. k x = i) xs)) + sum_list (map g (filter (\<lambda>x. \<not> k x = i) xs))"
    by (rule sum_list_filter_split)
  also have "filter (\<lambda>x. k x = i) xs = [y]" using d f by (rule filter_key_distinct)
  also have "sum_list (map g (filter (\<lambda>x. \<not> k x = i) xs)) = 100 - g y"
    using o m by (simp add: sum_spec_split)
  finally show ?thesis by simp
qed

lemma balanced_nonneg:
  fixes g :: "'a \<Rightarrow> int"
  assumes f: "find (\<lambda>x. k x = i) xs = Some y"
    and a: "\<And>z. z \<in> set xs \<Longrightarrow> k z = i \<Longrightarrow> g z = g y"
    and o: "map g (filter (\<lambda>x. k x \<noteq> i) xs) = spec_split (100 - g y) m"
    and w: "0 \<le> g y" "g y \<le> 100"
    and z: "z \<in> set xs"
  shows "0 \<le> g z"
proof (cases "k z = i")
  case True
  with a z w show ?thesis by simp
next
  case False
  with z have "g z \<in> set (map g (filter (\<lambda>x. k x \<noteq> i) xs))" by auto
  then have "g z \<in> set (spec_split (100 - g y) m)" unfolding o .
  with spec_split_nonneg[of "100 - g y"] w show ?thesis by simp
qed

lemma distinct_key_same:
  "distinct (map k xs) \<Longrightarrow> find (\<lambda>x. k x = i) xs = Some y \<Longrightarrow> z \<in> set xs \<Longrightarrow> k z = i \<Longrightarrow> z = y"
proof -
  assume a: "distinct (map k xs)" "find (\<lambda>x. k x = i) xs = Some y" "z \<in> set xs" "k z = i"
  from a(3,4) have "z \<in> set (filter (\<lambda>x. k x = i) xs)" by simp
  with filter_key_distinct[OF a(1,2)] have "z \<in> set [y]" by simp
  then show ?thesis by simp
qed

lemma weight_edit_objectives:
  assumes ed: "fd_editId fd \<noteq> []"
    and f: "find (\<lambda>ob. obj_id ob = fd_editId fd) (objectives d) = Some obj"
    and w: "weight obj \<noteq> fd_weight fd"
    and dist: "distinct (map obj_id (objectives d))"
    and ne: "filter (\<lambda>ob. obj_id ob \<noteq> fd_editId fd) (objectives d) \<noteq> []"
  shows "sum_list (map weight (objectives (saveObjective True fd e d))) = 100"
    and "0 \<le> fd_weight fd \<Longrightarrow> fd_weight fd \<le> 100 \<Longrightarrow>
         \<forall>ob \<in> set (objectives (saveObjective True fd e d)). 0 \<le> weight ob"
proof -
  let ?xs = "objectives (saveObjective True fd e d)"
  let ?m = "length (filter (\<lambda>ob. obj_id ob \<noteq> fd_editId fd) (objectives d))"
  note m = manual_rebalance_objectives[OF ed f w, of e]
  have d': "distinct (map obj_id ?xs)" using m(2) dist by simp
  have o': "map weight (filter (\<lambda>ob. obj_id ob \<noteq> fd_editId fd) ?xs)
              = spec_split (100 - weight (assignObjective fd obj)) ?m"
    using m(3)[OF ne] by simp
  have mpos: "0 < ?m" using ne by simp
  show "sum_list (map weight ?xs) = 100"
    using d' m(1) o' mpos by (rule balanced_sum)
  show "\<forall>ob \<in> set ?xs. 0 \<le> weight ob" if "0 \<le> fd_weight fd" "fd_weight fd \<le> 100"
  proof
    fix ob assume z: "ob \<in> set ?xs"
    have a: "weight z = weight (assignObjective fd obj)"
      if "z \<in> set ?xs" "obj_id z = fd_editId fd" for z
      using distinct_key_same[OF d' m(1) that] by simp
    from that have w1: "0 \<le> weight (assignObjective fd obj)"
      and w2: "weight (assignObjective fd obj) \<le> 100" by simp_all
    show "0 \<le> weight ob"
      using m(1) a o' w1 w2 z by (rule balanced_nonneg)
  qed
qed

lemma weight_edit_keyResults:
  assumes fo: "find (\<lambda>ob. obj_id ob = oid) (objectives d) = Some objective"
    and ed: "editId \<noteq> []"
    and fk: "find (\<lambda>k. kr_id k = editId) (keyResults objective) = Some kr"
    and w: "kr_weight kr \<noteq> wgt"
    and dist: "distinct (map kr_id (keyResults objective))"
    and ne: "filter (\<lambda>k. kr_id k \<noteq> editId) (keyResults objective) \<noteq> []"
  shows "\<exists>krs. find (\<lambda>ob. obj_id ob = oid)
                 (objectives (saveKeyResult oid ttl tgt sDate tDate wgt stat conf lastC evid comm editId e d))
               = Some (objective\<lparr>keyResults := krs\<rparr>) \<and>
           find (\<lambda>k. kr_id k = editId) krs
             = Some (assignKeyResult ttl tgt sDate tDate wgt stat conf lastC evid comm kr) \<and>
           sum_list (map kr_weight krs) = 100 \<and>
           (0 \<le> wgt \<and> wgt \<le> 100 \<longrightarrow> (\<forall>k \<in> set krs. 0 \<le> kr_weight k))"
proof -
  let ?asg = "assignKeyResult ttl tgt sDate tDate wgt stat conf lastC evid comm kr"
  let ?m = "length (filter (\<lambda>k. kr_id k \<noteq> editId) (keyResults objective))"
  from manual_rebalance_keyResults[OF fo ed fk w, of ttl tgt sDate tDate stat conf lastC evid comm e]
  obtain krs where
    1: "find (\<lambda>ob. obj_id ob = oid)
          (objectives (saveKeyResult oid ttl tgt sDate tDate wgt stat conf lastC evid comm editId e d))
        = Some (objective\<lparr>keyResults := krs\<rparr>)"
    and 2: "find (\<lambda>k. kr_id k = editId) krs = Some ?asg"
    and 3: "map kr_id krs = map kr_id (keyResults objective)"
    and 4: "filter (\<lambda>k. kr_id k \<noteq> editId) (keyResults objective) \<noteq> [] \<longrightarrow>
              map kr_weight (filter (\<lambda>k. kr_id k \<noteq> editId) krs) = spec_split (100 - wgt) ?m"
    by blast
  have d': "distinct (map kr_id krs)" using 3 dist by simp
  have o': "map kr_weight (filter (\<lambda>k. kr_id k \<noteq> editId) krs) = spec_split (100 - kr_weight ?asg) ?m"
    using 4 ne by simp
  have mpos: "0 < ?m" using ne by simp
  have s: "sum_list (map kr_weight krs) = 100"
    using d' 2 o' mpos by (rule balanced_sum)
  have n: "\<forall>k \<in> set krs. 0 \<le> kr_weight k" if "0 \<le> wgt" "wgt \<le> 100"
  proof
    fix k assume z: "k \<in> set krs"
    have a: "kr_weight z = kr_weight ?asg" if "z \<in> set krs" "kr_id z = editId" for z
      using distinct_key_same[OF d' 2 that] by simp
    from that have w1: "0 \<le> kr_weight ?asg" and w2: "kr_weight ?asg \<le> 100" by simp_all
    show "0 \<le> kr_weight k"
      using 2 a o' w1 w2 z by (rule balanced_nonneg)
  qed
  from 1 2 s n show ?thesis by blast
qed

lemma find_Some_mem: "find p xs = Some y \<Longrightarrow> y \<in> set xs"
  by (induction xs) (auto split: if_splits)

lemma nonneg_sum_ge_member:
  fixes f :: "'a \<Rightarrow> int"
  assumes "x \<in> set xs" and "list_all (\<lambda>y. 0 \<le> f y) xs"
  shows "f x \<le> sum_list (map f xs)"
proof -
  have "sum_list (map f xs) = f x + sum_list (map f (remove1 x xs))"
    using assms(1) by (rule sum_list_map_remove1)
  moreover have "0 \<le> sum_list (map f (remove1 x xs))"
  proof (rule sum_list_nonneg)
    fix v assume "v \<in> set (map f (remove1 x xs))"
    then obtain y where "y \<in> set (remove1 x xs)" "v = f y" by auto
    then have "y \<in> set xs" using notin_set_remove1 by fastforce
    then show "0 \<le> v" using assms(2) \<open>v = f y\<close> by (simp add: list_all_iff)
  qed
  ultimately show ?thesis by simp
qed

lemma over_100_negative:
  fixes f :: "'a \<Rightarrow> int"
  assumes "find p xs = Some x" and "sum_list (map f xs) = 100" and "100 < f x"
  shows "\<not> list_all (\<lambda>y. 0 \<le> f y) xs"
proof
  assume "list_all (\<lambda>y. 0 \<le> f y) xs"
  with find_Some_mem[OF assms(1)] have "f x \<le> sum_list (map f xs)"
    by (rule nonneg_sum_ge_member)
  with assms(2,3) show False by simp
qed

text \<open>
  C7, as the code has it. \<^verbatim>\<open>saveObjective\<close> and \<^verbatim>\<open>saveKeyResult\<close> store the edited weight as
  given and hand it to the balancer unchanged: there is no rejection and no clamping.
  For a weight \<open>w\<close> with \<open>|w| \<le> 2^52\<close> (the range on which the arithmetic of the balancer
  is exact in doubles) that differs from the stored one, when the ids of the siblings
  are distinct and there is at least one other sibling: the sibling weights sum to 100
  after the rebalance; no sibling's weight is negative when \<open>w\<close> lies in \<open>[0, 100]\<close>; and
  when \<open>w\<close> exceeds 100, some sibling's weight is negative.
\<close>

theorem weight_edit_unchecked:
  "(fd_editId fd \<noteq> [] \<and> find (\<lambda>ob. obj_id ob = fd_editId fd) (objectives d) = Some obj \<and>
    weight obj \<noteq> fd_weight fd \<and> distinct (map obj_id (objectives d)) \<and>
    filter (\<lambda>ob. obj_id ob \<noteq> fd_editId fd) (objectives d) \<noteq> [] \<and>
    \<bar>fd_weight fd\<bar> \<le> 4503599627370496 \<longrightarrow>
      find (\<lambda>ob. obj_id ob = fd_editId fd) (objectives (saveObjective True fd e d))
        = Some (assignObjective fd obj) \<and>
      weight (assignObjective fd obj) = fd_weight fd \<and>
      sum_list (map weight (objectives (saveObjective True fd e d))) = 100 \<and>
      (0 \<le> fd_weight fd \<and> fd_weight fd \<le> 100 \<longrightarrow>
         (\<forall>ob \<in> set (objectives (saveObjective True fd e d)). 0 \<le> weight ob)) \<and>
      (100 < fd_weight fd \<longrightarrow>
         \<not> list_all (\<lambda>ob. 0 \<le> weight ob) (objectives (saveObjective True fd e d)))) \<and>
   (find (\<lambda>ob. obj_id ob = oid) (objectives d) = Some objective \<and> editId \<noteq> [] \<and>
    find (\<lambda>k. kr_id k = editId) (keyResults objective) = Some kr \<and> kr_weight kr \<noteq> wgt \<and>
    distinct (map kr_id (keyResults objective)) \<and>
    filter (\<lambda>k. kr_id k \<noteq> editId) (keyResults objective) \<noteq> [] \<and>
    \<bar>wgt\<bar> \<le> 4503599627370496 \<longrightarrow>
      (\<exists>krs. find (\<lambda>ob. obj_id ob = oid)
                 (objectives (saveKeyResult oid ttl tgt sDate tDate wgt stat conf lastC evid comm editId e d))
               = Some (objective\<lparr>keyResults := krs\<rparr>) \<and>
           find (\<lambda>k. kr_id k = editId) krs
             = Some (assignKeyResult ttl tgt sDate tDate wgt stat conf lastC evid comm kr) \<and>
           kr_weight (assignKeyResult ttl tgt sDate tDate wgt stat conf lastC evid comm kr) = wgt \<and>
           sum_list (map kr_weight krs) = 100 \<and>
           (0 \<le> wgt \<and> wgt \<le> 100 \<longrightarrow> (\<forall>k \<in> set krs. 0 \<le> kr_weight k)) \<and>
           (100 < wgt \<longrightarrow> \<not> list_all (\<lambda>k. 0 \<le> kr_weight k) krs)))"
proof (intro conjI impI; (elim conjE)?)
  assume a: "fd_editId fd \<noteq> []" "find (\<lambda>ob. obj_id ob = fd_editId fd) (objectives d) = Some obj"
    "weight obj \<noteq> fd_weight fd" "distinct (map obj_id (objectives d))"
    "filter (\<lambda>ob. obj_id ob \<noteq> fd_editId fd) (objectives d) \<noteq> []"
  show f: "find (\<lambda>ob. obj_id ob = fd_editId fd) (objectives (saveObjective True fd e d))
        = Some (assignObjective fd obj)"
    using a(1-3) by (rule manual_rebalance_objectives(1))
  show "weight (assignObjective fd obj) = fd_weight fd" by simp
  show s: "sum_list (map weight (objectives (saveObjective True fd e d))) = 100"
    using a by (rule weight_edit_objectives(1))
  show "\<forall>ob \<in> set (objectives (saveObjective True fd e d)). 0 \<le> weight ob"
    if "0 \<le> fd_weight fd" "fd_weight fd \<le> 100"
    using a that by (rule weight_edit_objectives(2))
  show "\<not> list_all (\<lambda>ob. 0 \<le> weight ob) (objectives (saveObjective True fd e d))"
    if "100 < fd_weight fd"
    using f s by (rule over_100_negative) (use that in simp)
next
  assume b: "find (\<lambda>ob. obj_id ob = oid) (objectives d) = Some objective" "editId \<noteq> []"
    "find (\<lambda>k. kr_id k = editId) (keyResults objective) = Some kr" "kr_weight kr \<noteq> wgt"
    "distinct (map kr_id (keyResults objective))"
    "filter (\<lambda>k. kr_id k \<noteq> editId) (keyResults objective) \<noteq> []"
  let ?asg = "assignKeyResult ttl tgt sDate tDate wgt stat conf lastC evid comm kr"
  from weight_edit_keyResults[OF b, of ttl tgt sDate tDate stat conf lastC evid comm e]
  obtain krs where
    1: "find (\<lambda>ob. obj_id ob = oid)
          (objectives (saveKeyResult oid ttl tgt sDate tDate wgt stat conf lastC evid comm editId e d))
        = Some (objective\<lparr>keyResults := krs\<rparr>)"
    and 2: "find (\<lambda>k. kr_id k = editId) krs = Some ?asg"
    and 3: "sum_list (map kr_weight krs) = 100"
    and 4: "0 \<le> wgt \<and> wgt \<le> 100 \<longrightarrow> (\<forall>k \<in> set krs. 0 \<le> kr_weight k)"
    by (elim exE conjE)
  have 5: "kr_weight ?asg = wgt" by (simp only: kr_weight_assignKeyResult)
  have 6: "100 < wgt \<longrightarrow> \<not> list_all (\<lambda>k. 0 \<le> kr_weight k) krs"
  proof
    assume "100 < wgt"
    then have "100 < kr_weight ?asg" by (simp only: 5)
    with 2 3 show "\<not> list_all (\<lambda>k. 0 \<le> kr_weight k) krs" by (rule over_100_negative)
  qed
  from 1 2 5 3 4 6
  show "\<exists>krs. find (\<lambda>ob. obj_id ob = oid)
                 (objectives (saveKeyResult oid ttl tgt sDate tDate wgt stat conf lastC evid comm editId e d))
               = Some (objective\<lparr>keyResults := krs\<rparr>) \<and>
           find (\<lambda>k. kr_id k = editId) krs = Some ?asg \<and>
           kr_weight ?asg = wgt \<and>
           sum_list (map kr_weight krs) = 100 \<and>
           (0 \<le> wgt \<and> wgt \<le> 100 \<longrightarrow> (\<forall>k \<in> set krs. 0 \<le> kr_weight k)) \<and>
           (100 < wgt \<longrightarrow> \<not> list_all (\<lambda>k. 0 \<le> kr_weight k) krs)"
    by (intro exI conjI)
qed

text \<open>
  C7 as stated fails: editing the first of three objectives to weight 150 stores 150
  and gives the two others the weight -25 each.
\<close>

theorem weight_edit_counterexample:
  "find (\<lambda>ob. obj_id ob = ''a'') (objectives (saveObjective True (exForm ''a'' 150) exEnv exDoc))
     = Some (assignObjective (exForm ''a'' 150)
               (exObj ''a'' 34 [exKR ''k1'' 50 100 50, exKR ''k2'' 30 100 50])) \<and>
   weight (assignObjective (exForm ''a'' 150)
               (exObj ''a'' 34 [exKR ''k1'' 50 100 50, exKR ''k2'' 30 100 50])) = 150 \<and>
   map weight (filter (\<lambda>ob. obj_id ob \<noteq> ''a'')
      (objectives (saveObjective True (exForm ''a'' 150) exEnv exDoc))) = [- 25, - 25]"
proof -
  let ?a = "exObj ''a'' 34 [exKR ''k1'' 50 100 50, exKR ''k2'' 30 100 50]"
  let ?fd = "exForm ''a'' 150"
  have h1: "fd_editId ?fd = ''a''" "fd_weight ?fd = 150"
    by (simp_all add: exForm_def)
  have ed: "fd_editId ?fd \<noteq> []" unfolding h1 by simp
  have f: "find (\<lambda>ob. obj_id ob = fd_editId ?fd) (objectives exDoc) = Some ?a"
    unfolding h1 by (simp add: exDoc_def exObj_def)
  have w: "weight ?a \<noteq> fd_weight ?fd" unfolding h1 by (simp add: exObj_def)
  have h4: "filter (\<lambda>ob. obj_id ob \<noteq> ''a'') (objectives exDoc) = [exObj ''b'' 33 [], exObj ''c'' 33 []]"
    by (simp add: exDoc_def exObj_def)
  have s: "spec_split (100 - 150) (length [exObj ''b'' 33 [], exObj ''c'' 33 []]) = [- 25, - 25]"
    by (simp add: spec_split_def Let_def)
  have nz: "[exObj ''b'' 33 [], exObj ''c'' 33 []] \<noteq> []" by simp
  note m = manual_rebalance_objectives[OF ed f w, of exEnv, unfolded h1 h4 s]
  from m(1) weight_assignObjective[of ?fd ?a, unfolded h1] m(3)[OF nz]
  show ?thesis by (intro conjI)
qed

theorem weight_edit_unchecked_witness:
  "sum_list (map weight (objectives (saveObjective True (exForm ''b'' 40) exEnv exDoc))) = 100 \<and>
   list_all (\<lambda>ob. 0 \<le> weight ob) (objectives (saveObjective True (exForm ''b'' 40) exEnv exDoc)) \<and>
   sum_list (map weight (objectives (saveObjective True (exForm ''b'' 150) exEnv exDoc))) = 100 \<and>
   \<not> list_all (\<lambda>ob. 0 \<le> weight ob) (objectives (saveObjective True (exForm ''b'' 150) exEnv exDoc)) \<and>
   (\<exists>krs. find (\<lambda>ob. obj_id ob = ''a'')
             (objectives (saveKeyResult ''a'' ''t'' 100 ''2025-01-01'' ''2025-03-31'' 60 ''on-track''
                            ''Medium'' [] [] [] ''k2'' exEnv exDoc))
           = Some ((exObj ''a'' 34 [exKR ''k1'' 50 100 50, exKR ''k2'' 30 100 50])\<lparr>keyResults := krs\<rparr>) \<and>
      sum_list (map kr_weight krs) = 100 \<and> list_all (\<lambda>k. 0 \<le> kr_weight k) krs)"
proof -
  let ?a = "exObj ''a'' 34 [exKR ''k1'' 50 100 50, exKR ''k2'' 30 100 50]"
  let ?b = "exObj ''b'' 33 []"
  let ?fd = "exForm ''b'' 40"
  let ?fe = "exForm ''b'' 150"
  note t = weight_edit_unchecked[of ?fd exDoc ?b exEnv "''a''" ?a "''k2''"
      "exKR ''k2'' 30 100 50" 60 "''t''" 100 "''2025-01-01''" "''2025-03-31''" "''on-track''"
      "''Medium''" "[]" "[]" "[]"]
  note t' = weight_edit_unchecked[of ?fe exDoc ?b exEnv "''a''" ?a "''k2''"
      "exKR ''k2'' 30 100 50" 60 "''t''" 100 "''2025-01-01''" "''2025-03-31''" "''on-track''"
      "''Medium''" "[]" "[]" "[]"]
  have h1: "fd_editId ?fd = ''b''" "fd_weight ?fd = 40"
    by (simp_all add: exForm_def)
  have h1': "fd_editId ?fe = ''b''" "fd_weight ?fe = 150"
    by (simp_all add: exForm_def)
  have c1: "fd_editId ?fd \<noteq> [] \<and> find (\<lambda>ob. obj_id ob = fd_editId ?fd) (objectives exDoc) = Some ?b \<and>
    weight ?b \<noteq> fd_weight ?fd \<and> distinct (map obj_id (objectives exDoc)) \<and>
    filter (\<lambda>ob. obj_id ob \<noteq> fd_editId ?fd) (objectives exDoc) \<noteq> [] \<and>
    \<bar>fd_weight ?fd\<bar> \<le> 4503599627370496"
    unfolding h1 by (simp add: exDoc_def exObj_def)
  have c1': "fd_editId ?fe \<noteq> [] \<and> find (\<lambda>ob. obj_id ob = fd_editId ?fe) (objectives exDoc) = Some ?b \<and>
    weight ?b \<noteq> fd_weight ?fe \<and> distinct (map obj_id (objectives exDoc)) \<and>
    filter (\<lambda>ob. obj_id ob \<noteq> fd_editId ?fe) (objectives exDoc) \<noteq> [] \<and>
    \<bar>fd_weight ?fe\<bar> \<le> 4503599627370496"
    unfolding h1' by (simp add: exDoc_def exObj_def)
  have c2: "find (\<lambda>ob. obj_id ob = ''a'') (objectives exDoc) = Some ?a \<and> ''k2'' \<noteq> [] \<and>
    find (\<lambda>k. kr_id k = ''k2'') (keyResults ?a) = Some (exKR ''k2'' 30 100 50) \<and>
    kr_weight (exKR ''k2'' 30 100 50) \<noteq> 60 \<and> distinct (map kr_id (keyResults ?a)) \<and>
    filter (\<lambda>k. kr_id k \<noteq> ''k2'') (keyResults ?a) \<noteq> [] \<and> \<bar>60::int\<bar> \<le> 4503599627370496"
    by (simp add: exDoc_def exObj_def exKR_def)
  have r: "(0::int) \<le> 40 \<and> (40::int) \<le> 100" "(0::int) \<le> 60 \<and> (60::int) \<le> 100"
    "(100::int) < 150" by simp_all
  note r1 = t[THEN conjunct1, THEN mp, OF c1, unfolded h1]
  note r1' = t'[THEN conjunct1, THEN mp, OF c1', unfolded h1']
  note r2 = t[THEN conjunct2, THEN mp, OF c2]
  note r1a = r1[THEN conjunct2, THEN conjunct2, THEN conjunct1]
  note r1b = r1[THEN conjunct2, THEN conjunct2, THEN conjunct2, THEN conjunct1, THEN mp, OF r(1)]
  note r1a' = r1'[THEN conjunct2, THEN conjunct2, THEN conjunct1]
  note r1d' = r1'[THEN conjunct2, THEN conjunct2, THEN conjunct2, THEN conjunct2, THEN mp, OF r(3)]
  from r2 obtain krs where
    k1: "find (\<lambda>ob. obj_id ob = ''a'')
             (objectives (saveKeyResult ''a'' ''t'' 100 ''2025-01-01'' ''2025-03-31'' 60 ''on-track''
                            ''Medium'' [] [] [] ''k2'' exEnv exDoc))
           = Some (?a\<lparr>keyResults := krs\<rparr>)"
    and k2: "sum_list (map kr_weight krs) = 100"
    and k3: "(0::int) \<le> 60 \<and> (60::int) \<le> 100 \<longrightarrow> (\<forall>k \<in> set krs. 0 \<le> kr_weight k)"
    by (elim exE conjE)
  from k3 r(2) have "\<forall>k \<in> set krs. 0 \<le> kr_weight k" by (rule mp)
  then have k4: "list_all (\<lambda>k. 0 \<le> kr_weight k) krs" by (simp add: list_all_iff)
  from k1 k2 k4 have c: "\<exists>krs. find (\<lambda>ob. obj_id ob = ''a'')
             (objectives (saveKeyResult ''a'' ''t'' 100 ''2025-01-01'' ''2025-03-31'' 60 ''on-track''
                            ''Medium'' [] [] [] ''k2'' exEnv exDoc))
           = Some (?a\<lparr>keyResults := krs\<rparr>) \<and>
      sum_list (map kr_weight krs) = 100 \<and> list_all (\<lambda>k. 0 \<le> kr_weight k) krs"
    by (intro exI conjI)
  from r1b have r1c:
    "list_all (\<lambda>ob. 0 \<le> weight ob) (objectives (saveObjective True (exForm ''b'' 40) exEnv exDoc))"
    by (simp add: list_all_iff)
  from r1a r1c r1a' r1d' c show ?thesis by (intro conjI)
qed

subsection \<open>The invariant on current\<close>

lemma list_all_updateFirst:
  "list_all P xs \<Longrightarrow> (\<And>x. P x \<Longrightarrow> P (f x)) \<Longrightarrow> list_all P (updateFirst p f xs)"
  by (induction xs) auto

lemma list_all_forEachIndexed:
  "list_all P xs \<Longrightarrow> (\<And>k x. P x \<Longrightarrow> P (f k x)) \<Longrightarrow> list_all P (forEachIndexed f i xs)"
  by (induction xs arbitrary: i) auto

lemma list_all_forEachFiltered:
  "list_all P xs \<Longrightarrow> (\<And>k x. P x \<Longrightarrow> P (f k x)) \<Longrightarrow> list_all P (forEachFiltered p f i xs)"
  by (induction xs arbitrary: i) auto

lemma list_all_filter: "list_all P xs \<Longrightarrow> list_all P (filter q xs)"
  by (induction xs) auto

lemma krInvariant_weight [simp]: "krInvariant (kr\<lparr>kr_weight := w\<rparr>) = krInvariant kr"
  by (simp add: krInvariant_def)

lemma docInvariant_objectives:
  "objectives d' = objectives d \<Longrightarrow> docInvariant d' = docInvariant d"
  by (simp add: docInvariant_def)

lemma docInvariant_addHistoryEntry [simp]:
  "docInvariant (addHistoryEntry eid now ty ity iid itl chg grp d) = docInvariant d"
  by (rule docInvariant_objectives) simp

lemma docInvariant_recordProgressSnapshot [simp]:
  "docInvariant (recordProgressSnapshot e d) = docInvariant d"
  by (rule docInvariant_objectives) simp

lemma docInvariant_updateFirst:
  assumes "docInvariant d"
    and "\<And>obj. list_all krInvariant (keyResults obj) \<Longrightarrow> list_all krInvariant (keyResults (f obj))"
  shows "docInvariant (d\<lparr>objectives := updateFirst p f (objectives d)\<rparr>)"
  using assms by (simp add: docInvariant_def list_all_updateFirst)

lemma docInvariant_autoBalanceObjectiveWeights:
  "docInvariant d \<Longrightarrow> docInvariant (autoBalanceObjectiveWeights d)"
  by (simp add: autoBalanceObjectiveWeights_def Let_def docInvariant_def list_all_forEachIndexed)

lemma docInvariant_balanceOtherObjectives:
  "docInvariant d \<Longrightarrow> docInvariant (balanceOtherObjectives i w d)"
  by (simp add: balanceOtherObjectives_def Let_def docInvariant_def list_all_forEachFiltered)

lemma docInvariant_autoBalanceKRWeights:
  "docInvariant d \<Longrightarrow> docInvariant (autoBalanceKRWeights oid d)"
  by (auto simp: autoBalanceKRWeights_def Let_def list_all_forEachIndexed
      intro!: docInvariant_updateFirst split: option.splits)

lemma docInvariant_balanceOtherKRs:
  "docInvariant d \<Longrightarrow> docInvariant (balanceOtherKRs oid kid w d)"
  by (auto simp: balanceOtherKRs_def Let_def list_all_forEachFiltered
      intro!: docInvariant_updateFirst split: option.splits)

lemma krInvariant_assignKeyResult:
  "0 \<le> tgt \<Longrightarrow> krInvariant kr \<Longrightarrow>
   krInvariant (assignKeyResult ttl tgt sDate tDate wgt stat conf lastC evid comm kr)"
  by (simp add: krInvariant_def assignKeyResult_def)

lemma krInvariant_newKeyResult:
  "0 \<le> tgt \<Longrightarrow> krInvariant (newKeyResult ttl tgt sDate tDate stat conf lastC evid comm e)"
  by (simp add: krInvariant_def newKeyResult_def)

lemma krInvariant_clamp:
  "krInvariant k \<Longrightarrow>
   krInvariant (k\<lparr>current := max 0 (min (target k) (js_add_int (current k) delta))\<rparr>)"
  by (simp add: krInvariant_def)

lemma docInvariant_saveKeyResult:
  assumes "docInvariant d" "0 \<le> tgt"
  shows "docInvariant (saveKeyResult oid ttl tgt sDate tDate wgt stat conf lastC evid comm editId e d)"
  using assms
  by (auto simp: saveKeyResult_def Let_def list_all_updateFirst krInvariant_assignKeyResult
      krInvariant_newKeyResult
      intro!: docInvariant_updateFirst docInvariant_balanceOtherKRs docInvariant_autoBalanceKRWeights
      split: option.splits)

lemma docInvariant_updateKR:
  assumes "docInvariant d"
  shows "docInvariant (updateKR oid kid delta e d)"
  using assms
  by (auto simp: updateKR_def Let_def list_all_updateFirst krInvariant_clamp
      intro!: docInvariant_updateFirst split: option.splits)

lemma docInvariant_deleteKR:
  assumes "docInvariant d"
  shows "docInvariant (deleteKR oid kid e d)"
  using assms
  by (auto simp: deleteKR_def Let_def docInvariant_def list_all_updateFirst list_all_filter
      split: option.splits)

lemma docInvariant_deleteObjective:
  assumes "docInvariant d"
  shows "docInvariant (deleteObjective c i e d)"
  using assms
  by (auto simp: deleteObjective_def Let_def docInvariant_def list_all_filter
      split: option.splits)

lemma keyResults_assignObjective [simp]: "keyResults (assignObjective fd ob) = keyResults ob"
  by (simp add: assignObjective_def)

lemma docInvariant_saveObjective:
  assumes "docInvariant d"
  shows "docInvariant (saveObjective fh fd e d)"
proof -
  have 1: "docInvariant (d\<lparr>objectives := updateFirst p (assignObjective fd) (objectives d)\<rparr>)" for p
    using assms by (rule docInvariant_updateFirst) simp
  have 2: "docInvariant (d\<lparr>objectives := objectives d @ [newObjective fd e]\<rparr>)"
    using assms by (simp add: docInvariant_def newObjective_def)
  show ?thesis
    using assms 1 2
    by (auto simp: saveObjective_def Let_def
        intro!: docInvariant_balanceOtherObjectives docInvariant_autoBalanceObjectiveWeights
        split: option.splits)
qed

lemma docInvariant_exDoc: "docInvariant exDoc"
  by (simp add: docInvariant_def krInvariant_def exDoc_def exObj_def exKR_def)

subsection \<open>Unknown ids, snapshots and progress entries\<close>

lemma find_snoc:
  "find p (xs @ [x]) = (case find p xs of Some y \<Rightarrow> Some y | None \<Rightarrow> if p x then Some x else None)"
  by (induction xs) auto

lemma map_of_foldl_update:
  "map_of (foldl (\<lambda>m x. AList.update (k x) (v x) m) m0 xs) i =
     (case find (\<lambda>x. k x = i) (rev xs) of Some x \<Rightarrow> Some (v x) | None \<Rightarrow> map_of m0 i)"
proof (induction xs arbitrary: m0)
  case Nil
  then show ?case by simp
next
  case (Cons x xs)
  show ?case
    by (simp add: Cons[of "AList.update (k x) (v x) m0"] find_snoc update_conv'
        split: option.splits)
qed

lemma keys_foldl_update:
  "fst ` set (foldl (\<lambda>m x. AList.update (k x) (v x) m) m0 xs) = fst ` set m0 \<union> k ` set xs"
  by (induction xs arbitrary: m0) (auto simp: dom_update)

lemma map_of_snapshotObjectives:
  "map_of (snapshotObjectives objs) i =
     map_option snapshotObjective (find (\<lambda>ob. obj_id ob = i) (rev objs))"
  by (simp add: snapshotObjectives_def map_of_foldl_update split: option.splits)

lemma map_of_snapshotKeyResults:
  "map_of (snapshotKeyResults krs) i =
     map_option snapshotKeyResult (find (\<lambda>k. kr_id k = i) (rev krs))"
  by (simp add: snapshotKeyResults_def map_of_foldl_update split: option.splits)

lemma history_recordProgressSnapshot:
  "history (recordProgressSnapshot e d) =
     (if objectives d = [] then history d
      else snapshotEntry e (objectives d) # take 999 (history d))"
  by (simp add: recordProgressSnapshot_def Let_def history_addHistoryEntry snapshotEntry_def)

lemma recordProgressSnapshot_empty: "objectives d = [] \<Longrightarrow> recordProgressSnapshot e d = d"
  by (simp add: recordProgressSnapshot_def)

lemma filter_find_None: "find p xs = None \<Longrightarrow> filter (\<lambda>x. \<not> p x) xs = xs"
  by (induction xs) (auto split: if_splits)

lemma updateFirst_same: "find p xs = Some y \<Longrightarrow> f y = y \<Longrightarrow> updateFirst p f xs = xs"
  by (induction xs) (auto split: if_splits)

lemma updateFirst_nonempty: "xs \<noteq> [] \<Longrightarrow> updateFirst p f xs \<noteq> []"
  by (cases xs) auto

lemma find_Some_nonempty: "find p xs = Some y \<Longrightarrow> xs \<noteq> []"
  by (cases xs) auto

lemma document_objectives_same [simp]: "d\<lparr>objectives := objectives d\<rparr> = d"
  by simp

lemma updateKR_unknown:
  "find (\<lambda>ob. obj_id ob = oid) (objectives d) = None \<Longrightarrow> updateKR oid kid delta e d = d"
  "find (\<lambda>ob. obj_id ob = oid) (objectives d) = Some objective \<Longrightarrow>
   find (\<lambda>k. kr_id k = kid) (keyResults objective) = None \<Longrightarrow> updateKR oid kid delta e d = d"
  by (simp_all add: updateKR_def)

lemma deleteKR_unknown:
  "find (\<lambda>ob. obj_id ob = oid) (objectives d) = None \<Longrightarrow> deleteKR oid kid e d = d"
  "find (\<lambda>ob. obj_id ob = oid) (objectives d) = Some objective \<Longrightarrow>
   find (\<lambda>k. kr_id k = kid) (keyResults objective) = None \<Longrightarrow>
   deleteKR oid kid e d = recordProgressSnapshot e d"
proof -
  show "deleteKR oid kid e d = d" if "find (\<lambda>ob. obj_id ob = oid) (objectives d) = None"
    using that by (simp add: deleteKR_def)
  assume f: "find (\<lambda>ob. obj_id ob = oid) (objectives d) = Some objective"
    and k: "find (\<lambda>k. kr_id k = kid) (keyResults objective) = None"
  have "filter (\<lambda>k. kr_id k \<noteq> kid) (keyResults objective) = keyResults objective"
    using filter_find_None[OF k] by simp
  then have "objective\<lparr>keyResults := filter (\<lambda>k. kr_id k \<noteq> kid) (keyResults objective)\<rparr> = objective"
    by simp
  with f have "updateFirst (\<lambda>ob. obj_id ob = oid)
        (\<lambda>obj. obj\<lparr>keyResults := filter (\<lambda>k. kr_id k \<noteq> kid) (keyResults obj)\<rparr>) (objectives d)
      = objectives d"
    by (rule updateFirst_same)
  then show "deleteKR oid kid e d = recordProgressSnapshot e d"
    using f k by (simp add: deleteKR_def Let_def)
qed

lemma saveKeyResult_unknown:
  "find (\<lambda>ob. obj_id ob = oid) (objectives d) = None \<Longrightarrow>
   saveKeyResult oid ttl tgt sDate tDate wgt stat conf lastC evid comm editId e d = d"
  "find (\<lambda>ob. obj_id ob = oid) (objectives d) = Some objective \<Longrightarrow> editId \<noteq> [] \<Longrightarrow>
   find (\<lambda>k. kr_id k = editId) (keyResults objective) = None \<Longrightarrow>
   saveKeyResult oid ttl tgt sDate tDate wgt stat conf lastC evid comm editId e d
     = recordProgressSnapshot e d"
  by (simp_all add: saveKeyResult_def Let_def)

lemma deleteObjective_unknown:
  "find (\<lambda>ob. obj_id ob = i) (objectives d) = None \<Longrightarrow>
   deleteObjective c i e d = (if c then recordProgressSnapshot e d else d)"
  using filter_find_None[of "\<lambda>ob. obj_id ob = i" "objectives d"]
  by (simp add: deleteObjective_def Let_def)

lemma saveObjective_unknown:
  "fd_editId fd \<noteq> [] \<Longrightarrow> find (\<lambda>ob. obj_id ob = fd_editId fd) (objectives d) = None \<Longrightarrow>
   saveObjective fh fd e d = (if fh then recordProgressSnapshot e d else d)"
  by (simp add: saveObjective_def Let_def)

text \<open>
  C8, as the code has it. No operation raises (the model is total; in the source the
  only expressions that could throw here read \<^verbatim>\<open>objective.keyResults\<close>, an array on every
  objective this model describes). With an unknown id the objectives are never
  changed and no \<^verbatim>\<open>updated\<close>, \<^verbatim>\<open>progress\<close> or \<^verbatim>\<open>deleted\<close> entry is written. \<^verbatim>\<open>updateKR\<close>, and
  \<^verbatim>\<open>deleteKR\<close> and \<^verbatim>\<open>saveKeyResult\<close> with an unknown objective id, return the document as it
  is. \<^verbatim>\<open>deleteObjective\<close> (once confirmed) and the edit branch of \<^verbatim>\<open>saveObjective\<close> (with a
  file open) with an unknown objective id, and \<^verbatim>\<open>deleteKR\<close> and the edit branch of
  \<^verbatim>\<open>saveKeyResult\<close> with a known objective and an unknown key result id, do exactly what
  \<^verbatim>\<open>recordProgressSnapshot\<close> does: the objectives stay, and the history gets one
  \<^verbatim>\<open>progress-snapshot\<close> entry when the document has an objective.
\<close>

theorem unknown_id_noop:
  "(find (\<lambda>ob. obj_id ob = oid) (objectives d) = None \<longrightarrow>
      updateKR oid kid delta e d = d \<and>
      deleteKR oid kid e d = d \<and>
      saveKeyResult oid ttl tgt sDate tDate wgt stat conf lastC evid comm editId e d = d \<and>
      deleteObjective c oid e d = (if c then recordProgressSnapshot e d else d)) \<and>
   (fd_editId fd \<noteq> [] \<and> find (\<lambda>ob. obj_id ob = fd_editId fd) (objectives d) = None \<longrightarrow>
      saveObjective fh fd e d = (if fh then recordProgressSnapshot e d else d)) \<and>
   (find (\<lambda>ob. obj_id ob = oid) (objectives d) = Some objective \<and>
    find (\<lambda>k. kr_id k = kid) (keyResults objective) = None \<longrightarrow>
      updateKR oid kid delta e d = d \<and>
      deleteKR oid kid e d = recordProgressSnapshot e d \<and>
      (kid \<noteq> [] \<longrightarrow>
         saveKeyResult oid ttl tgt sDate tDate wgt stat conf lastC evid comm kid e d
           = recordProgressSnapshot e d)) \<and>
   objectives (recordProgressSnapshot e d) = objectives d \<and>
   history (recordProgressSnapshot e d) =
     (if objectives d = [] then history d
      else snapshotEntry e (objectives d) # take 999 (history d)) \<and>
   h_type (snapshotEntry e (objectives d)) = ''progress-snapshot''"
  by (simp add: updateKR_unknown deleteKR_unknown saveKeyResult_unknown deleteObjective_unknown
      saveObjective_unknown history_recordProgressSnapshot snapshotEntry_def)

text \<open>
  C8 as stated fails: deleting an objective id that does not exist, in a document with
  three objectives and an empty history, leaves a history that is not empty.
\<close>

theorem unknown_id_counterexample:
  "find (\<lambda>ob. obj_id ob = ''zz'') (objectives exDoc) = None \<and>
   history (deleteObjective True ''zz'' exEnv exDoc) \<noteq> history exDoc"
proof -
  have f: "find (\<lambda>ob. obj_id ob = ''zz'') (objectives exDoc) = None"
    by (simp add: exDoc_def exObj_def)
  have "history (deleteObjective True ''zz'' exEnv exDoc)
          = snapshotEntry exEnv (objectives exDoc) # take 999 (history exDoc)"
    by (simp add: deleteObjective_unknown[OF f] history_recordProgressSnapshot) (simp add: exDoc_def)
  moreover have "history exDoc = []" by (simp add: exDoc_def)
  ultimately show ?thesis using f by simp
qed

theorem unknown_id_noop_witness:
  "updateKR ''zz'' ''k1'' 10 exEnv exDoc = exDoc \<and>
   updateKR ''a'' ''zz'' 10 exEnv exDoc = exDoc \<and>
   objectives (deleteKR ''a'' ''zz'' exEnv exDoc) = objectives exDoc \<and>
   objectives (saveObjective True (exForm ''zz'' 10) exEnv exDoc) = objectives exDoc"
proof -
  let ?a = "exObj ''a'' 34 [exKR ''k1'' 50 100 50, exKR ''k2'' 30 100 50]"
  have f1: "find (\<lambda>ob. obj_id ob = ''zz'') (objectives exDoc) = None"
    by (simp add: exDoc_def exObj_def)
  have f2: "find (\<lambda>ob. obj_id ob = ''a'') (objectives exDoc) = Some ?a \<and>
            find (\<lambda>k. kr_id k = ''zz'') (keyResults ?a) = None"
    by (simp add: exDoc_def exObj_def exKR_def)
  have f3: "fd_editId (exForm ''zz'' 10) \<noteq> [] \<and>
            find (\<lambda>ob. obj_id ob = fd_editId (exForm ''zz'' 10)) (objectives exDoc) = None"
    by (simp add: exDoc_def exObj_def exForm_def)
  note t1 = unknown_id_noop[of "''zz''" exDoc "''k1''" 10 exEnv "[]" 0 "[]" "[]" 0 "[]" "[]" "[]"
      "[]" "[]" "[]" True "exForm ''zz'' 10" True ?a]
  note t2 = unknown_id_noop[of "''a''" exDoc "''zz''" 10 exEnv "[]" 0 "[]" "[]" 0 "[]" "[]" "[]"
      "[]" "[]" "[]" True "exForm ''zz'' 10" True ?a]
  note a = t1[THEN conjunct1, THEN mp, OF f1, THEN conjunct1]
  note b = t2[THEN conjunct2, THEN conjunct2, THEN conjunct1, THEN mp, OF f2]
  note c = t1[THEN conjunct2, THEN conjunct1, THEN mp, OF f3]
  note o = t1[THEN conjunct2, THEN conjunct2, THEN conjunct2, THEN conjunct1]
  have "objectives (deleteKR ''a'' ''zz'' exEnv exDoc) = objectives exDoc"
    using b[THEN conjunct2, THEN conjunct1] o by simp
  moreover have "objectives (saveObjective True (exForm ''zz'' 10) exEnv exDoc) = objectives exDoc"
    using c o by simp
  ultimately show ?thesis using a b[THEN conjunct1] by (intro conjI)
qed

lemma snapshotEntry_payload:
  "\<exists>payload. h_changes (snapshotEntry e objs)
        = SnapshotOf \<lparr>snap_timestamp = snapTime e, snap_objectives = payload\<rparr> \<and>
      fst ` set payload = obj_id ` set objs \<and>
      (\<forall>i. map_of payload i
             = map_option snapshotObjective (find (\<lambda>ob. obj_id ob = i) (rev objs)))"
proof (intro exI conjI allI)
  show "h_changes (snapshotEntry e objs)
        = SnapshotOf \<lparr>snap_timestamp = snapTime e, snap_objectives = snapshotObjectives objs\<rparr>"
    by (simp add: snapshotEntry_def)
  show "fst ` set (snapshotObjectives objs) = obj_id ` set objs"
    by (simp add: snapshotObjectives_def keys_foldl_update)
  show "map_of (snapshotObjectives objs) i
             = map_option snapshotObjective (find (\<lambda>ob. obj_id ob = i) (rev objs))" for i
    by (rule map_of_snapshotObjectives)
qed

lemma keys_snapshotKeyResults: "fst ` set (snapshotKeyResults krs) = kr_id ` set krs"
  by (simp add: snapshotKeyResults_def keys_foldl_update)

lemma updateKR_found:
  assumes "find (\<lambda>ob. obj_id ob = oid) (objectives d) = Some objective"
    and "find (\<lambda>k. kr_id k = kid) (keyResults objective) = Some kr"
  shows "updateKR oid kid delta e d =
     recordProgressSnapshot e
       (if current kr \<noteq> clampedCurrent kr delta
        then addHistoryEntry (entryId e) (entryTime e) ''progress'' ''keyresult'' kid (kr_title kr)
               (ProgressChange (current kr, target kr, krProgress kr)
                  (clampedCurrent kr delta, target kr,
                   krProgress (kr\<lparr>current := clampedCurrent kr delta\<rparr>)) delta)
               (Some (group objective))
               (d\<lparr>objectives := updateFirst (\<lambda>ob. obj_id ob = oid)
                    (\<lambda>obj. obj\<lparr>keyResults := updateFirst (\<lambda>k. kr_id k = kid)
                       (\<lambda>k. k\<lparr>current := clampedCurrent k delta\<rparr>) (keyResults obj)\<rparr>)
                    (objectives d)\<rparr>)
        else d\<lparr>objectives := updateFirst (\<lambda>ob. obj_id ob = oid)
                    (\<lambda>obj. obj\<lparr>keyResults := updateFirst (\<lambda>k. kr_id k = kid)
                       (\<lambda>k. k\<lparr>current := clampedCurrent k delta\<rparr>) (keyResults obj)\<rparr>)
                    (objectives d)\<rparr>)"
  using assms by (simp add: updateKR_def Let_def clampedCurrent_def)

lemma updateKR_effect:
  assumes f: "find (\<lambda>ob. obj_id ob = oid) (objectives d) = Some objective"
    and k: "find (\<lambda>k. kr_id k = kid) (keyResults objective) = Some kr"
  shows "\<exists>krs. find (\<lambda>ob. obj_id ob = oid) (objectives (updateKR oid kid delta e d))
                 = Some (objective\<lparr>keyResults := krs\<rparr>) \<and>
               find (\<lambda>k. kr_id k = kid) krs = Some (kr\<lparr>current := clampedCurrent kr delta\<rparr>)"
    and "history (updateKR oid kid delta e d) =
           snapshotEntry e (objectives (updateKR oid kid delta e d)) #
             take 999 (if clampedCurrent kr delta \<noteq> current kr
                       then progressEntry e kid objective kr delta # take 999 (history d)
                       else history d)"
proof -
  let ?P = "\<lambda>ob. obj_id ob = oid"
  let ?Q = "\<lambda>k. kr_id k = kid"
  let ?c = "\<lambda>k. k\<lparr>current := clampedCurrent k delta\<rparr>"
  let ?xs = "updateFirst ?P (\<lambda>obj. obj\<lparr>keyResults := updateFirst ?Q ?c (keyResults obj)\<rparr>) (objectives d)"
  have o: "objectives (updateKR oid kid delta e d) = ?xs"
    by (simp add: updateKR_found[OF f k])
  have ne: "?xs \<noteq> []"
    using find_Some_nonempty[OF f] by (rule updateFirst_nonempty)
  have "find ?P ?xs = Some (objective\<lparr>keyResults := updateFirst ?Q ?c (keyResults objective)\<rparr>)"
    using f by (simp add: find_updateFirst)
  moreover have "find ?Q (updateFirst ?Q ?c (keyResults objective)) = Some (?c kr)"
    using k by (simp add: find_updateFirst)
  ultimately show "\<exists>krs. find ?P (objectives (updateKR oid kid delta e d))
                 = Some (objective\<lparr>keyResults := krs\<rparr>) \<and>
               find ?Q krs = Some (kr\<lparr>current := clampedCurrent kr delta\<rparr>)"
    unfolding o by blast
  show "history (updateKR oid kid delta e d) =
           snapshotEntry e (objectives (updateKR oid kid delta e d)) #
             take 999 (if clampedCurrent kr delta \<noteq> current kr
                       then progressEntry e kid objective kr delta # take 999 (history d)
                       else history d)"
    unfolding o using ne
    by (simp add: updateKR_found[OF f k] history_recordProgressSnapshot history_addHistoryEntry
        progressEntry_def)
qed

subsection \<open>What the mutators store in current\<close>

lemma map_forEachIndexed_frame:
  assumes "\<And>k x. c (f k x) = c x"
  shows "map c (forEachIndexed f i xs) = map c xs"
  using assms by (induction xs arbitrary: i) auto

lemma saveKeyResult_add_stores:
  assumes fo: "find (\<lambda>ob. obj_id ob = oid) (objectives d) = Some objective"
  shows "\<exists>krs. find (\<lambda>ob. obj_id ob = oid)
                 (objectives (saveKeyResult oid ttl tgt sDate tDate wgt stat conf lastC evid comm [] e d))
               = Some (objective\<lparr>keyResults := krs\<rparr>) \<and>
           map (\<lambda>k. (kr_id k, current k, target k)) krs
             = map (\<lambda>k. (kr_id k, current k, target k)) (keyResults objective) @ [(newId e, 0, tgt)]"
proof -
  let ?P = "\<lambda>ob. obj_id ob = oid"
  let ?new = "newKeyResult ttl tgt sDate tDate stat conf lastC evid comm e"
  let ?ks = "keyResults objective @ [?new]"
  let ?d2 = "d\<lparr>objectives := updateFirst ?P (\<lambda>obj. obj\<lparr>keyResults := keyResults obj @ [?new]\<rparr>) (objectives d)\<rparr>"
  let ?eq = "100 div int (length ?ks)"
  let ?f = "\<lambda>index kr. kr\<lparr>kr_weight := ?eq + (if int index < 100 - ?eq * int (length ?ks) then 1 else 0)\<rparr>"
  have f2: "find ?P (objectives ?d2) = Some (objective\<lparr>keyResults := ?ks\<rparr>)"
    using fo by (simp add: find_updateFirst)
  have "objectives (saveKeyResult oid ttl tgt sDate tDate wgt stat conf lastC evid comm [] e d)
          = objectives (autoBalanceKRWeights oid ?d2)"
    using fo by (simp add: saveKeyResult_def Let_def)
  also have "\<dots> = updateFirst ?P (\<lambda>obj. obj\<lparr>keyResults := forEachIndexed ?f 0 (keyResults obj)\<rparr>)
                      (objectives ?d2)"
    using f2 by (simp add: autoBalanceKRWeights_def Let_def)
  finally have o: "objectives (saveKeyResult oid ttl tgt sDate tDate wgt stat conf lastC evid comm [] e d)
      = updateFirst ?P (\<lambda>obj. obj\<lparr>keyResults := forEachIndexed ?f 0 (keyResults obj)\<rparr>) (objectives ?d2)" .
  have "find ?P (updateFirst ?P (\<lambda>obj. obj\<lparr>keyResults := forEachIndexed ?f 0 (keyResults obj)\<rparr>) (objectives ?d2))
          = map_option (\<lambda>obj. obj\<lparr>keyResults := forEachIndexed ?f 0 (keyResults obj)\<rparr>) (find ?P (objectives ?d2))"
    by (rule find_updateFirst) simp
  then have 1: "find ?P (objectives (saveKeyResult oid ttl tgt sDate tDate wgt stat conf lastC evid comm [] e d))
          = Some (objective\<lparr>keyResults := forEachIndexed ?f 0 ?ks\<rparr>)"
    unfolding o f2 by simp
  have "map (\<lambda>k. (kr_id k, current k, target k)) (forEachIndexed ?f 0 ?ks)
          = map (\<lambda>k. (kr_id k, current k, target k)) ?ks"
    by (rule map_forEachIndexed_frame) simp
  then have 2: "map (\<lambda>k. (kr_id k, current k, target k)) (forEachIndexed ?f 0 ?ks)
          = map (\<lambda>k. (kr_id k, current k, target k)) (keyResults objective) @ [(newId e, 0, tgt)]"
    by (simp add: newKeyResult_def)
  from 1 2 show ?thesis by blast
qed

lemma saveKeyResult_edit_stores:
  assumes fo: "find (\<lambda>ob. obj_id ob = oid) (objectives d) = Some objective"
    and ed: "editId \<noteq> []"
    and fk: "find (\<lambda>k. kr_id k = editId) (keyResults objective) = Some kr"
  shows "\<exists>krs. find (\<lambda>ob. obj_id ob = oid)
                 (objectives (saveKeyResult oid ttl tgt sDate tDate wgt stat conf lastC evid comm editId e d))
               = Some (objective\<lparr>keyResults := krs\<rparr>) \<and>
           find (\<lambda>k. kr_id k = editId) krs
             = Some (assignKeyResult ttl tgt sDate tDate wgt stat conf lastC evid comm kr)"
proof (cases "kr_weight kr = wgt")
  case False
  from manual_rebalance_keyResults[OF fo ed fk False, of ttl tgt sDate tDate stat conf lastC evid comm e]
  show ?thesis by blast
next
  case True
  let ?P = "\<lambda>ob. obj_id ob = oid"
  let ?Q = "\<lambda>k. kr_id k = editId"
  let ?asg = "assignKeyResult ttl tgt sDate tDate wgt stat conf lastC evid comm"
  let ?xs = "updateFirst ?P (\<lambda>ob. ob\<lparr>keyResults := updateFirst ?Q ?asg (keyResults ob)\<rparr>) (objectives d)"
  have o: "objectives (saveKeyResult oid ttl tgt sDate tDate wgt stat conf lastC evid comm editId e d) = ?xs"
    using True by (simp add: objectives_saveKeyResult_edit[OF fo ed fk])
  have "find ?P ?xs = Some (objective\<lparr>keyResults := updateFirst ?Q ?asg (keyResults objective)\<rparr>)"
    using fo by (simp add: find_updateFirst)
  moreover have "find ?Q (updateFirst ?Q ?asg (keyResults objective)) = Some (?asg kr)"
    using fk by (simp add: find_updateFirst)
  ultimately show ?thesis unfolding o by blast
qed

lemma js_add_int_exact: "\<bar>a + b\<bar> \<le> 9007199254740992 \<Longrightarrow> js_add_int a b = a + b"
  by (simp add: js_add_int_def)

lemma clampedCurrent_range:
  "0 \<le> target kr \<Longrightarrow> 0 \<le> clampedCurrent kr delta \<and> clampedCurrent kr delta \<le> target kr"
  by (simp add: clampedCurrent_def)

lemma docInvariant_emptyDoc: "docInvariant emptyDoc"
  by (simp add: docInvariant_def emptyDoc_def)

text \<open>
  C4, as the code has it. The empty document satisfies \<open>0 \<le> current \<le> target\<close>, and
  \<^verbatim>\<open>updateKR\<close>, \<^verbatim>\<open>deleteKR\<close>, \<^verbatim>\<open>saveObjective\<close> and \<^verbatim>\<open>deleteObjective\<close> keep it, as does
  \<^verbatim>\<open>saveKeyResult\<close> when the target it is given is not negative. What the mutators store:
  adding a key result appends one with \<^verbatim>\<open>current\<close> 0 and the given target and leaves id,
  \<^verbatim>\<open>current\<close> and target of the others; editing one stores \<^verbatim>\<open>min(current, target)\<close> and
  the given target; \<^verbatim>\<open>updateKR\<close> stores \<^verbatim>\<open>max(0, min(target, current + delta))\<close>, where the
  sum is the double addition, exact while \<open>|current + delta| \<le> 2^53\<close>; this value lies in
  \<open>[0, target]\<close> when the target is not negative.
\<close>

theorem current_invariant_preserved:
  "docInvariant emptyDoc \<and>
   (docInvariant d \<longrightarrow>
      docInvariant (updateKR oid kid delta e d) \<and>
      (0 \<le> tgt \<longrightarrow>
         docInvariant (saveKeyResult oid ttl tgt sDate tDate wgt stat conf lastC evid comm editId e d)) \<and>
      docInvariant (deleteKR oid kid e d) \<and>
      docInvariant (saveObjective fh fd e d) \<and>
      docInvariant (deleteObjective c i e d)) \<and>
   (find (\<lambda>ob. obj_id ob = oid) (objectives d) = Some objective \<longrightarrow>
      (\<exists>krs. find (\<lambda>ob. obj_id ob = oid)
                 (objectives (saveKeyResult oid ttl tgt sDate tDate wgt stat conf lastC evid comm [] e d))
               = Some (objective\<lparr>keyResults := krs\<rparr>) \<and>
             map (\<lambda>k. (kr_id k, current k, target k)) krs
               = map (\<lambda>k. (kr_id k, current k, target k)) (keyResults objective) @ [(newId e, 0, tgt)]) \<and>
      (find (\<lambda>k. kr_id k = kid) (keyResults objective) = Some kr \<longrightarrow>
         (kid \<noteq> [] \<longrightarrow>
            (\<exists>krs. find (\<lambda>ob. obj_id ob = oid)
                 (objectives (saveKeyResult oid ttl tgt sDate tDate wgt stat conf lastC evid comm kid e d))
               = Some (objective\<lparr>keyResults := krs\<rparr>) \<and>
             find (\<lambda>k. kr_id k = kid) krs
               = Some (assignKeyResult ttl tgt sDate tDate wgt stat conf lastC evid comm kr))) \<and>
         current (assignKeyResult ttl tgt sDate tDate wgt stat conf lastC evid comm kr)
           = min (current kr) tgt \<and>
         target (assignKeyResult ttl tgt sDate tDate wgt stat conf lastC evid comm kr) = tgt \<and>
         (\<exists>krs. find (\<lambda>ob. obj_id ob = oid) (objectives (updateKR oid kid delta e d))
                 = Some (objective\<lparr>keyResults := krs\<rparr>) \<and>
               find (\<lambda>k. kr_id k = kid) krs = Some (kr\<lparr>current := clampedCurrent kr delta\<rparr>)))) \<and>
   clampedCurrent kr delta = max 0 (min (target kr) (js_add_int (current kr) delta)) \<and>
   (\<bar>current kr + delta\<bar> \<le> 9007199254740992 \<longrightarrow>
      js_add_int (current kr) delta = current kr + delta) \<and>
   (0 \<le> target kr \<longrightarrow> 0 \<le> clampedCurrent kr delta \<and> clampedCurrent kr delta \<le> target kr)"
proof (intro conjI impI)
  show "docInvariant emptyDoc" by (rule docInvariant_emptyDoc)
next
  assume i: "docInvariant d"
  show "docInvariant (updateKR oid kid delta e d)" using i by (rule docInvariant_updateKR)
  show "docInvariant (deleteKR oid kid e d)" using i by (rule docInvariant_deleteKR)
  show "docInvariant (saveObjective fh fd e d)" using i by (rule docInvariant_saveObjective)
  show "docInvariant (deleteObjective c i e d)" using i by (rule docInvariant_deleteObjective)
  show "docInvariant (saveKeyResult oid ttl tgt sDate tDate wgt stat conf lastC evid comm editId e d)"
    if "0 \<le> tgt"
    using i that by (rule docInvariant_saveKeyResult)
next
  assume f: "find (\<lambda>ob. obj_id ob = oid) (objectives d) = Some objective"
  show "\<exists>krs. find (\<lambda>ob. obj_id ob = oid)
                 (objectives (saveKeyResult oid ttl tgt sDate tDate wgt stat conf lastC evid comm [] e d))
               = Some (objective\<lparr>keyResults := krs\<rparr>) \<and>
             map (\<lambda>k. (kr_id k, current k, target k)) krs
               = map (\<lambda>k. (kr_id k, current k, target k)) (keyResults objective) @ [(newId e, 0, tgt)]"
    using f by (rule saveKeyResult_add_stores)
  assume k: "find (\<lambda>k. kr_id k = kid) (keyResults objective) = Some kr"
  show "\<exists>krs. find (\<lambda>ob. obj_id ob = oid)
                 (objectives (saveKeyResult oid ttl tgt sDate tDate wgt stat conf lastC evid comm kid e d))
               = Some (objective\<lparr>keyResults := krs\<rparr>) \<and>
             find (\<lambda>k. kr_id k = kid) krs
               = Some (assignKeyResult ttl tgt sDate tDate wgt stat conf lastC evid comm kr)"
    if "kid \<noteq> []"
    using f that k by (rule saveKeyResult_edit_stores)
  show "current (assignKeyResult ttl tgt sDate tDate wgt stat conf lastC evid comm kr) = min (current kr) tgt"
    by (simp add: assignKeyResult_def)
  show "target (assignKeyResult ttl tgt sDate tDate wgt stat conf lastC evid comm kr) = tgt"
    by (simp add: assignKeyResult_def)
  show "\<exists>krs. find (\<lambda>ob. obj_id ob = oid) (objectives (updateKR oid kid delta e d))
                 = Some (objective\<lparr>keyResults := krs\<rparr>) \<and>
               find (\<lambda>k. kr_id k = kid) krs = Some (kr\<lparr>current := clampedCurrent kr delta\<rparr>)"
    using f k by (rule updateKR_effect(1))
next
  show "clampedCurrent kr delta = max 0 (min (target kr) (js_add_int (current kr) delta))"
    by (simp add: clampedCurrent_def)
  show "js_add_int (current kr) delta = current kr + delta"
    if "\<bar>current kr + delta\<bar> \<le> 9007199254740992"
    using that by (rule js_add_int_exact)
  show "0 \<le> clampedCurrent kr delta" "clampedCurrent kr delta \<le> target kr" if "0 \<le> target kr"
    using clampedCurrent_range[OF that] by simp_all
qed

text \<open>
  C4 as stated fails: adding a key result with target -5, which the form accepts, to a
  document that satisfies the invariant stores \<^verbatim>\<open>current\<close> 0, above the target.
\<close>

theorem current_invariant_counterexample:
  "docInvariant exDoc \<and>
   \<not> docInvariant (saveKeyResult ''b'' ''t'' (- 5) ''2025-01-01'' ''2025-03-31'' 50
                      ''on-track'' ''Medium'' [] [] [] [] exEnv exDoc)"
  by (simp add: docInvariant_def krInvariant_def exDoc_def exObj_def exKR_def saveKeyResult_def
      Let_def newKeyResult_def autoBalanceKRWeights_def)

theorem current_invariant_preserved_witness:
  "docInvariant exDoc \<and>
   docInvariant (updateKR ''a'' ''k1'' 10 exEnv exDoc) \<and>
   docInvariant (saveKeyResult ''a'' ''t'' 40 ''2025-01-01'' ''2025-03-31'' 50 ''on-track''
                   ''Medium'' [] [] [] ''k1'' exEnv exDoc) \<and>
   (\<exists>krs. find (\<lambda>ob. obj_id ob = ''a'')
             (objectives (saveKeyResult ''a'' ''t'' 40 ''2025-01-01'' ''2025-03-31'' 50 ''on-track''
                            ''Medium'' [] [] [] [] exEnv exDoc))
           = Some ((exObj ''a'' 34 [exKR ''k1'' 50 100 50, exKR ''k2'' 30 100 50])\<lparr>keyResults := krs\<rparr>) \<and>
         map (\<lambda>k. (kr_id k, current k, target k)) krs
           = [(''k1'', 50, 100), (''k2'', 30, 100), (''n1'', 0, 40)]) \<and>
   (\<exists>krs. find (\<lambda>ob. obj_id ob = ''a'')
             (objectives (saveKeyResult ''a'' ''t'' 40 ''2025-01-01'' ''2025-03-31'' 50 ''on-track''
                            ''Medium'' [] [] [] ''k1'' exEnv exDoc))
           = Some ((exObj ''a'' 34 [exKR ''k1'' 50 100 50, exKR ''k2'' 30 100 50])\<lparr>keyResults := krs\<rparr>) \<and>
         map_option (\<lambda>k. (current k, target k)) (find (\<lambda>k. kr_id k = ''k1'') krs) = Some (40, 40)) \<and>
   (\<exists>krs. find (\<lambda>ob. obj_id ob = ''a'') (objectives (updateKR ''a'' ''k1'' 60 exEnv exDoc))
           = Some ((exObj ''a'' 34 [exKR ''k1'' 50 100 50, exKR ''k2'' 30 100 50])\<lparr>keyResults := krs\<rparr>) \<and>
         map_option (\<lambda>k. (current k, target k)) (find (\<lambda>k. kr_id k = ''k1'') krs) = Some (100, 100))"
proof -
  let ?a = "exObj ''a'' 34 [exKR ''k1'' 50 100 50, exKR ''k2'' 30 100 50]"
  let ?k = "exKR ''k1'' 50 100 50"
  let ?asg = "assignKeyResult ''t'' 40 ''2025-01-01'' ''2025-03-31'' 50 ''on-track'' ''Medium'' [] [] [] ?k"
  have z: "(0::int) \<le> 40" by simp
  have f: "find (\<lambda>ob. obj_id ob = ''a'') (objectives exDoc) = Some ?a"
    by (simp add: exDoc_def exObj_def)
  have k: "find (\<lambda>k. kr_id k = ''k1'') (keyResults ?a) = Some ?k"
    by (simp add: exObj_def exKR_def)
  have ne: "''k1'' \<noteq> []" by simp
  have pre: "map (\<lambda>k. (kr_id k, current k, target k)) (keyResults ?a) @ [(newId exEnv, 0, 40)]
      = [(''k1'', 50, 100), (''k2'', 30, 100), (''n1'', 0, 40)]"
    by (simp add: exObj_def exKR_def exEnv_def)
  have r: "\<bar>current ?k + 60\<bar> \<le> 9007199254740992" "0 \<le> target ?k"
    by (simp_all add: exKR_def)
  note t10 = current_invariant_preserved[of exDoc "''a''" "''k1''" 10 exEnv 40 "''t''" "''2025-01-01''"
      "''2025-03-31''" 50 "''on-track''" "''Medium''" "[]" "[]" "[]" "''k1''" True "exForm [] 0" True
      "[]" ?a ?k]
  note t60 = current_invariant_preserved[of exDoc "''a''" "''k1''" 60 exEnv 40 "''t''" "''2025-01-01''"
      "''2025-03-31''" 50 "''on-track''" "''Medium''" "[]" "[]" "[]" "''k1''" True "exForm [] 0" True
      "[]" ?a ?k]
  note inv = t10[THEN conjunct2, THEN conjunct1, THEN mp, OF docInvariant_exDoc]
  note sto = t60[THEN conjunct2, THEN conjunct2, THEN conjunct1, THEN mp, OF f]
  note stk = sto[THEN conjunct2, THEN mp, OF k]
  note cc = t60[THEN conjunct2, THEN conjunct2, THEN conjunct2]
  have c60: "clampedCurrent ?k 60 = 100"
    using cc[THEN conjunct1] cc[THEN conjunct2, THEN conjunct1, THEN mp, OF r(1)]
    by (simp add: exKR_def)
  have a1: "docInvariant (updateKR ''a'' ''k1'' 10 exEnv exDoc)" by (rule inv[THEN conjunct1])
  have a2: "docInvariant (saveKeyResult ''a'' ''t'' 40 ''2025-01-01'' ''2025-03-31'' 50 ''on-track''
                   ''Medium'' [] [] [] ''k1'' exEnv exDoc)"
    by (rule inv[THEN conjunct2, THEN conjunct1, THEN mp, OF z])
  from sto[THEN conjunct1] have a3: "\<exists>krs. find (\<lambda>ob. obj_id ob = ''a'')
             (objectives (saveKeyResult ''a'' ''t'' 40 ''2025-01-01'' ''2025-03-31'' 50 ''on-track''
                            ''Medium'' [] [] [] [] exEnv exDoc))
           = Some (?a\<lparr>keyResults := krs\<rparr>) \<and>
         map (\<lambda>k. (kr_id k, current k, target k)) krs
           = [(''k1'', 50, 100), (''k2'', 30, 100), (''n1'', 0, 40)]"
    unfolding pre .
  have v: "current ?asg = 40" "target ?asg = 40"
    using stk[THEN conjunct2, THEN conjunct1] stk[THEN conjunct2, THEN conjunct2, THEN conjunct1]
    by (simp_all add: exKR_def)
  from stk[THEN conjunct1, THEN mp, OF ne] obtain krs where
    e1: "find (\<lambda>ob. obj_id ob = ''a'')
             (objectives (saveKeyResult ''a'' ''t'' 40 ''2025-01-01'' ''2025-03-31'' 50 ''on-track''
                            ''Medium'' [] [] [] ''k1'' exEnv exDoc))
           = Some (?a\<lparr>keyResults := krs\<rparr>)"
    and e2: "find (\<lambda>k. kr_id k = ''k1'') krs = Some ?asg"
    by (elim exE conjE)
  have "map_option (\<lambda>k. (current k, target k)) (find (\<lambda>k. kr_id k = ''k1'') krs) = Some (40, 40)"
    unfolding e2 by (simp add: v)
  with e1 have a4: "\<exists>krs. find (\<lambda>ob. obj_id ob = ''a'')
             (objectives (saveKeyResult ''a'' ''t'' 40 ''2025-01-01'' ''2025-03-31'' 50 ''on-track''
                            ''Medium'' [] [] [] ''k1'' exEnv exDoc))
           = Some (?a\<lparr>keyResults := krs\<rparr>) \<and>
         map_option (\<lambda>k. (current k, target k)) (find (\<lambda>k. kr_id k = ''k1'') krs) = Some (40, 40)"
    by (intro exI conjI)
  from stk[THEN conjunct2, THEN conjunct2, THEN conjunct2] obtain krs2 where
    u1: "find (\<lambda>ob. obj_id ob = ''a'') (objectives (updateKR ''a'' ''k1'' 60 exEnv exDoc))
           = Some (?a\<lparr>keyResults := krs2\<rparr>)"
    and u2: "find (\<lambda>k. kr_id k = ''k1'') krs2 = Some (?k\<lparr>current := clampedCurrent ?k 60\<rparr>)"
    by (elim exE conjE)
  have "map_option (\<lambda>k. (current k, target k)) (find (\<lambda>k. kr_id k = ''k1'') krs2) = Some (100, 100)"
    unfolding u2 c60 by (simp add: exKR_def)
  with u1 have a5: "\<exists>krs. find (\<lambda>ob. obj_id ob = ''a'') (objectives (updateKR ''a'' ''k1'' 60 exEnv exDoc))
           = Some (?a\<lparr>keyResults := krs\<rparr>) \<and>
         map_option (\<lambda>k. (current k, target k)) (find (\<lambda>k. kr_id k = ''k1'') krs) = Some (100, 100)"
    by (intro exI conjI)
  from docInvariant_exDoc a1 a2 a3 a4 a5 show ?thesis by (intro conjI)
qed

subsection \<open>Snapshots\<close>

lemma history_autoBalanceObjectiveWeights [simp]:
  "history (autoBalanceObjectiveWeights d) = history d"
  by (simp add: autoBalanceObjectiveWeights_def Let_def)

lemma history_autoBalanceKRWeights [simp]:
  "history (autoBalanceKRWeights oid d) = history d"
  by (simp add: autoBalanceKRWeights_def Let_def split: option.splits)

lemma snapshot_wrap:
  "atMostOneItemEntry old (history d1) \<Longrightarrow>
   \<exists>h. atMostOneItemEntry old h \<and> snapshotInFront e h (recordProgressSnapshot e d1)"
  by (rule exI[of _ "history d1"]) (simp add: snapshotInFront_def history_recordProgressSnapshot)

lemma saveObjective_snapshot:
  "\<exists>h. atMostOneItemEntry (history d) h \<and> snapshotInFront e h (saveObjective True fd e d)"
proof -
  have "saveObjective True fd e d = recordProgressSnapshot e
     (if fd_editId fd \<noteq> [] then
        (case find (\<lambda>ob. obj_id ob = fd_editId fd) (objectives d) of
           None \<Rightarrow> d
         | Some obj \<Rightarrow>
             let d3 = (if length (objectiveChanges obj fd) > 0
                       then addHistoryEntry (entryId e) (entryTime e) ''updated'' ''objective''
                              (fd_editId fd) (fd_title fd) (Diff (objectiveChanges obj fd))
                              (Some (fd_group fd))
                              (d\<lparr>objectives := updateFirst (\<lambda>ob. obj_id ob = fd_editId fd)
                                   (assignObjective fd) (objectives d)\<rparr>)
                       else d\<lparr>objectives := updateFirst (\<lambda>ob. obj_id ob = fd_editId fd)
                                   (assignObjective fd) (objectives d)\<rparr>)
             in if weight obj \<noteq> fd_weight fd
                then balanceOtherObjectives (fd_editId fd) (fd_weight fd) d3 else d3)
      else addHistoryEntry (entryId e) (entryTime e) ''created'' ''objective'' (newId e)
             (fd_title fd) Created (Some (fd_group fd))
             (autoBalanceObjectiveWeights (d\<lparr>objectives := objectives d @ [newObjective fd e]\<rparr>)))"
    (is "_ = recordProgressSnapshot e ?d1")
    by (simp add: saveObjective_def Let_def split: option.splits)
  moreover have "atMostOneItemEntry (history d) (history ?d1)"
    by (auto simp: atMostOneItemEntry_def history_addHistoryEntry Let_def split: option.splits)
  ultimately show ?thesis using snapshot_wrap by simp
qed

lemma deleteObjective_snapshot:
  "\<exists>h. atMostOneItemEntry (history d) h \<and> snapshotInFront e h (deleteObjective True i e d)"
proof -
  let ?d1 = "case find (\<lambda>ob. obj_id ob = i) (objectives d) of
               Some obj \<Rightarrow> addHistoryEntry (entryId e) (entryTime e) ''deleted'' ''objective'' i
                        (title obj) Deleted (Some (group obj)) d
             | None \<Rightarrow> d"
  let ?d2 = "?d1\<lparr>objectives := filter (\<lambda>obj. obj_id obj \<noteq> i) (objectives ?d1)\<rparr>"
  have "deleteObjective True i e d = recordProgressSnapshot e ?d2"
    by (simp add: deleteObjective_def Let_def)
  moreover have "atMostOneItemEntry (history d) (history ?d2)"
    by (auto simp: atMostOneItemEntry_def history_addHistoryEntry split: option.splits)
  ultimately show ?thesis using snapshot_wrap by simp
qed

lemma deleteKR_snapshot:
  assumes "find (\<lambda>ob. obj_id ob = oid) (objectives d) = Some objective"
  shows "\<exists>h. atMostOneItemEntry (history d) h \<and> snapshotInFront e h (deleteKR oid kid e d)"
proof -
  let ?d1 = "case find (\<lambda>k. kr_id k = kid) (keyResults objective) of
               Some kr \<Rightarrow> addHistoryEntry (entryId e) (entryTime e) ''deleted'' ''keyresult'' kid
                        (kr_title kr) Deleted (Some (group objective)) d
             | None \<Rightarrow> d"
  let ?d2 = "?d1\<lparr>objectives := updateFirst (\<lambda>obj. obj_id obj = oid)
                (\<lambda>obj. obj\<lparr>keyResults := filter (\<lambda>k. kr_id k \<noteq> kid) (keyResults obj)\<rparr>)
                (objectives ?d1)\<rparr>"
  have "deleteKR oid kid e d = recordProgressSnapshot e ?d2"
    using assms by (simp add: deleteKR_def Let_def)
  moreover have "atMostOneItemEntry (history d) (history ?d2)"
    by (auto simp: atMostOneItemEntry_def history_addHistoryEntry split: option.splits)
  ultimately show ?thesis using snapshot_wrap by simp
qed

lemma updateKR_snapshot:
  assumes f: "find (\<lambda>ob. obj_id ob = oid) (objectives d) = Some objective"
    and k: "find (\<lambda>k. kr_id k = kid) (keyResults objective) = Some kr"
  shows "\<exists>h. atMostOneItemEntry (history d) h \<and> snapshotInFront e h (updateKR oid kid delta e d)"
  unfolding updateKR_found[OF f k]
  by (rule snapshot_wrap) (auto simp: atMostOneItemEntry_def history_addHistoryEntry)

lemma saveKeyResult_snapshot:
  assumes f: "find (\<lambda>ob. obj_id ob = oid) (objectives d) = Some objective"
  shows "\<exists>h. atMostOneItemEntry (history d) h \<and>
             snapshotInFront e h
               (saveKeyResult oid ttl tgt sDate tDate wgt stat conf lastC evid comm editId e d)"
proof -
  let ?xs = "updateFirst (\<lambda>obj. obj_id obj = oid)
               (\<lambda>obj. obj\<lparr>keyResults := updateFirst (\<lambda>k. kr_id k = editId)
                  (assignKeyResult ttl tgt sDate tDate wgt stat conf lastC evid comm)
                  (keyResults obj)\<rparr>) (objectives d)"
  let ?d1 = "if editId \<noteq> [] then
       (case find (\<lambda>k. kr_id k = editId) (keyResults objective) of
          None \<Rightarrow> d
        | Some kr \<Rightarrow>
            let d3 = (if length (keyResultChanges kr ttl tgt sDate tDate wgt stat conf lastC evid comm) > 0
                      then addHistoryEntry (entryId e) (entryTime e) ''updated'' ''keyresult'' editId ttl
                             (Diff (keyResultChanges kr ttl tgt sDate tDate wgt stat conf lastC evid comm))
                             (Some (group objective)) (d\<lparr>objectives := ?xs\<rparr>)
                      else d\<lparr>objectives := ?xs\<rparr>)
            in if kr_weight kr \<noteq> wgt then balanceOtherKRs oid editId wgt d3 else d3)
     else addHistoryEntry (entryId e) (entryTime e) ''created'' ''keyresult'' (newId e) ttl Created
            (Some (group objective))
            (autoBalanceKRWeights oid
               (d\<lparr>objectives := updateFirst (\<lambda>obj. obj_id obj = oid)
                    (\<lambda>obj. obj\<lparr>keyResults := keyResults obj @
                       [newKeyResult ttl tgt sDate tDate stat conf lastC evid comm e]\<rparr>)
                    (objectives d)\<rparr>))"
  have "saveKeyResult oid ttl tgt sDate tDate wgt stat conf lastC evid comm editId e d
          = recordProgressSnapshot e ?d1"
    using f by (simp add: saveKeyResult_def Let_def split: option.splits)
  moreover have "atMostOneItemEntry (history d) (history ?d1)"
    by (auto simp: atMostOneItemEntry_def history_addHistoryEntry Let_def split: option.splits)
  ultimately show ?thesis using snapshot_wrap by simp
qed

lemma history_balanceObjectiveWeights:
  "history (balanceObjectiveWeights d) = history d"
  by (simp add: balanceObjectiveWeights_def)

lemma history_balanceKRWeights:
  "history (balanceKRWeights oid d) = history d"
  by (simp add: balanceKRWeights_def)

text \<open>
  C9, as the code has it. \<^verbatim>\<open>recordProgressSnapshot\<close> returns the document as it is when there
  is no objective. Otherwise it leaves the objectives and puts one entry in front of the
  history, through the capped log: type \<^verbatim>\<open>progress-snapshot\<close>, itemType \<^verbatim>\<open>system\<close>, itemId
  \<^verbatim>\<open>all\<close>, group \<^verbatim>\<open>null\<close>. Its payload is keyed by objective id, has exactly the ids of the
  objectives as keys, and holds under an id the title, the group (\<^verbatim>\<open>Personal\<close> when
  empty) and the computed progress of the last objective with that id, and, keyed by
  key result id, title, progress, current and target of its key results. Every
  mutating operation that runs to its end (\<^verbatim>\<open>saveObjective\<close> with a file open,
  \<^verbatim>\<open>deleteObjective\<close> once confirmed, \<^verbatim>\<open>saveKeyResult\<close> and \<^verbatim>\<open>deleteKR\<close> on an existing
  objective, \<^verbatim>\<open>updateKR\<close> on an existing key result) writes at most one entry of its own,
  which is not a \<^verbatim>\<open>progress-snapshot\<close> entry, and then, when the document it leaves has an
  objective, exactly one \<^verbatim>\<open>progress-snapshot\<close> entry of that document in front of it;
  when it leaves no objective, it writes no snapshot entry. The two balance buttons
  leave the history as it is.
\<close>

theorem snapshot_recorded:
  "(objectives d = [] \<longrightarrow> recordProgressSnapshot e d = d) \<and>
   (objectives d \<noteq> [] \<longrightarrow>
      objectives (recordProgressSnapshot e d) = objectives d \<and>
      history (recordProgressSnapshot e d) = snapshotEntry e (objectives d) # take 999 (history d)) \<and>
   h_type (snapshotEntry e objs) = ''progress-snapshot'' \<and>
   itemType (snapshotEntry e objs) = ''system'' \<and>
   itemId (snapshotEntry e objs) = ''all'' \<and>
   h_group (snapshotEntry e objs) = None \<and>
   (\<exists>payload. h_changes (snapshotEntry e objs)
        = SnapshotOf \<lparr>snap_timestamp = snapTime e, snap_objectives = payload\<rparr> \<and>
      fst ` set payload = obj_id ` set objs \<and>
      (\<forall>i. map_of payload i
             = map_option snapshotObjective (find (\<lambda>ob. obj_id ob = i) (rev objs)))) \<and>
   so_title (snapshotObjective ob) = title ob \<and>
   so_group (snapshotObjective ob) = (if group ob = [] then ''Personal'' else group ob) \<and>
   so_progress (snapshotObjective ob) = calculateProgress ob \<and>
   fst ` set (so_keyResults (snapshotObjective ob)) = kr_id ` set (keyResults ob) \<and>
   (\<forall>k. map_of (so_keyResults (snapshotObjective ob)) k
          = map_option snapshotKeyResult (find (\<lambda>kr. kr_id kr = k) (rev (keyResults ob)))) \<and>
   sk_title (snapshotKeyResult kr) = kr_title kr \<and>
   sk_progress (snapshotKeyResult kr) = krProgress kr \<and>
   sk_current (snapshotKeyResult kr) = current kr \<and>
   sk_target (snapshotKeyResult kr) = target kr \<and>
   (\<exists>h. atMostOneItemEntry (history d) h \<and> snapshotInFront e h (saveObjective True fd e d)) \<and>
   (\<exists>h. atMostOneItemEntry (history d) h \<and> snapshotInFront e h (deleteObjective True i e d)) \<and>
   history (balanceObjectiveWeights d) = history d \<and>
   history (balanceKRWeights oid d) = history d \<and>
   (find (\<lambda>ob. obj_id ob = oid) (objectives d) = Some objective \<longrightarrow>
      (\<exists>h. atMostOneItemEntry (history d) h \<and>
           snapshotInFront e h
             (saveKeyResult oid ttl tgt sDate tDate wgt stat conf lastC evid comm editId e d)) \<and>
      (\<exists>h. atMostOneItemEntry (history d) h \<and> snapshotInFront e h (deleteKR oid kid e d)) \<and>
      (find (\<lambda>k. kr_id k = kid) (keyResults objective) = Some k0 \<longrightarrow>
         (\<exists>h. atMostOneItemEntry (history d) h \<and>
              snapshotInFront e h (updateKR oid kid delta e d))))"
proof (intro conjI impI allI)
  show "recordProgressSnapshot e d = d" if "objectives d = []"
    using that by (rule recordProgressSnapshot_empty)
  show "objectives (recordProgressSnapshot e d) = objectives d" by simp
  show "history (recordProgressSnapshot e d) = snapshotEntry e (objectives d) # take 999 (history d)"
    if "objectives d \<noteq> []"
    using that by (simp add: history_recordProgressSnapshot)
  show "h_type (snapshotEntry e objs) = ''progress-snapshot''"
    "itemType (snapshotEntry e objs) = ''system''"
    "itemId (snapshotEntry e objs) = ''all''"
    "h_group (snapshotEntry e objs) = None"
    by (simp_all add: snapshotEntry_def)
  show "\<exists>payload. h_changes (snapshotEntry e objs)
        = SnapshotOf \<lparr>snap_timestamp = snapTime e, snap_objectives = payload\<rparr> \<and>
      fst ` set payload = obj_id ` set objs \<and>
      (\<forall>i. map_of payload i
             = map_option snapshotObjective (find (\<lambda>ob. obj_id ob = i) (rev objs)))"
    by (rule snapshotEntry_payload)
  show "so_title (snapshotObjective ob) = title ob"
    "so_group (snapshotObjective ob) = (if group ob = [] then ''Personal'' else group ob)"
    "so_progress (snapshotObjective ob) = calculateProgress ob"
    by (simp_all add: snapshotObjective_def orDefault_def)
  show "fst ` set (so_keyResults (snapshotObjective ob)) = kr_id ` set (keyResults ob)"
    by (simp add: snapshotObjective_def keys_snapshotKeyResults)
  show "map_of (so_keyResults (snapshotObjective ob)) k
          = map_option snapshotKeyResult (find (\<lambda>kr. kr_id kr = k) (rev (keyResults ob)))" for k
    by (simp add: snapshotObjective_def map_of_snapshotKeyResults)
  show "sk_title (snapshotKeyResult kr) = kr_title kr"
    "sk_progress (snapshotKeyResult kr) = krProgress kr"
    "sk_current (snapshotKeyResult kr) = current kr"
    "sk_target (snapshotKeyResult kr) = target kr"
    by (simp_all add: snapshotKeyResult_def)
  show "\<exists>h. atMostOneItemEntry (history d) h \<and> snapshotInFront e h (saveObjective True fd e d)"
    by (rule saveObjective_snapshot)
  show "\<exists>h. atMostOneItemEntry (history d) h \<and> snapshotInFront e h (deleteObjective True i e d)"
    by (rule deleteObjective_snapshot)
  show "history (balanceObjectiveWeights d) = history d"
    by (rule history_balanceObjectiveWeights)
  show "history (balanceKRWeights oid d) = history d"
    by (rule history_balanceKRWeights)
  assume f: "find (\<lambda>ob. obj_id ob = oid) (objectives d) = Some objective"
  show "\<exists>h. atMostOneItemEntry (history d) h \<and>
           snapshotInFront e h
             (saveKeyResult oid ttl tgt sDate tDate wgt stat conf lastC evid comm editId e d)"
    using f by (rule saveKeyResult_snapshot)
  show "\<exists>h. atMostOneItemEntry (history d) h \<and> snapshotInFront e h (deleteKR oid kid e d)"
    using f by (rule deleteKR_snapshot)
  show "\<exists>h. atMostOneItemEntry (history d) h \<and> snapshotInFront e h (updateKR oid kid delta e d)"
    if "find (\<lambda>k. kr_id k = kid) (keyResults objective) = Some k0"
    using f that by (rule updateKR_snapshot)
qed

text \<open>
  C9 as stated fails on the group: the entry's group is \<^verbatim>\<open>null\<close>; \<^verbatim>\<open>all\<close> is its itemId. And
  the balance button changes the weights 34, 33 of two objectives to 50, 50 and writes
  no entry.
\<close>

theorem snapshot_recorded_counterexample:
  "objectives exDoc \<noteq> [] \<and>
   h_group (hd (history (recordProgressSnapshot exEnv exDoc))) = None \<and>
   h_group (hd (history (recordProgressSnapshot exEnv exDoc))) \<noteq> Some ''all'' \<and>
   itemId (hd (history (recordProgressSnapshot exEnv exDoc))) = ''all'' \<and>
   map weight (objectives exDocTwo) = [34, 33] \<and>
   map weight (objectives (balanceObjectiveWeights exDocTwo)) = [50, 50] \<and>
   history (balanceObjectiveWeights exDocTwo) = []"
proof -
  have ne: "objectives exDoc \<noteq> []" by (simp add: exDoc_def)
  then have "hd (history (recordProgressSnapshot exEnv exDoc)) = snapshotEntry exEnv (objectives exDoc)"
    by (simp add: history_recordProgressSnapshot)
  then have g: "h_group (hd (history (recordProgressSnapshot exEnv exDoc))) = None"
    "h_group (hd (history (recordProgressSnapshot exEnv exDoc))) \<noteq> Some ''all''"
    "itemId (hd (history (recordProgressSnapshot exEnv exDoc))) = ''all''"
    by (simp_all add: snapshotEntry_def)
  have b: "map weight (objectives exDocTwo) = [34, 33]"
    "map weight (objectives (balanceObjectiveWeights exDocTwo)) = [50, 50]"
    "history (balanceObjectiveWeights exDocTwo) = []"
    by (simp_all add: balanceObjectiveWeights_def autoBalanceObjectiveWeights_def exDocTwo_def
        exObj_def Let_def)
  from ne g b show ?thesis by (intro conjI)
qed

theorem snapshot_recorded_witness:
  "recordProgressSnapshot exEnv emptyDoc = emptyDoc \<and>
   history (recordProgressSnapshot exEnv exDoc) = [snapshotEntry exEnv (objectives exDoc)] \<and>
   length (history (updateKR ''a'' ''k1'' 10 exEnv exDoc)) = 2 \<and>
   hd (history (updateKR ''a'' ''k1'' 10 exEnv exDoc))
     = snapshotEntry exEnv (objectives (updateKR ''a'' ''k1'' 10 exEnv exDoc)) \<and>
   h_type (hd (tl (history (updateKR ''a'' ''k1'' 10 exEnv exDoc)))) = ''progress''"
proof -
  let ?a = "exObj ''a'' 34 [exKR ''k1'' 50 100 50, exKR ''k2'' 30 100 50]"
  let ?R = "updateKR ''a'' ''k1'' 10 exEnv exDoc"
  have e: "objectives emptyDoc = []" by (simp add: emptyDoc_def)
  have ne: "objectives exDoc \<noteq> []" by (simp add: exDoc_def)
  have h: "history exDoc = []" by (simp add: exDoc_def)
  have f: "find (\<lambda>ob. obj_id ob = ''a'') (objectives exDoc) = Some ?a"
    by (simp add: exDoc_def exObj_def)
  have k: "find (\<lambda>k. kr_id k = ''k1'') (keyResults ?a) = Some (exKR ''k1'' 50 100 50)"
    by (simp add: exObj_def exKR_def)
  have neR: "objectives ?R \<noteq> []"
    unfolding updateKR_found[OF f k] by (simp add: exDoc_def updateFirst_nonempty)
  have len: "length (history ?R) = 2"
    "h_type (hd (tl (history ?R))) = ''progress''"
    unfolding updateKR_found[OF f k]
    by (simp_all add: history_recordProgressSnapshot history_addHistoryEntry
        exDoc_def exObj_def exKR_def clampedCurrent_def js_add_int_def Let_def updateFirst_nonempty)
  note t0 = snapshot_recorded[of emptyDoc exEnv "[]" ?a "exKR ''k1'' 50 100 50" "exForm [] 0" "[]"
      "''a''" ?a "[]" 0 "[]" "[]" 0 "[]" "[]" "[]" "[]" "[]" "[]" "''k1''" "exKR ''k1'' 50 100 50" 10]
  note t1 = snapshot_recorded[of exDoc exEnv "[]" ?a "exKR ''k1'' 50 100 50" "exForm [] 0" "[]"
      "''a''" ?a "[]" 0 "[]" "[]" 0 "[]" "[]" "[]" "[]" "[]" "[]" "''k1''" "exKR ''k1'' 50 100 50" 10]
  note a = t0[THEN conjunct1, THEN mp, OF e]
  note b = t1[THEN conjunct2, THEN conjunct1, THEN mp, OF ne, THEN conjunct2, unfolded h]
  from t1 have "find (\<lambda>ob. obj_id ob = ''a'') (objectives exDoc) = Some ?a \<longrightarrow>
      (\<exists>h. atMostOneItemEntry (history exDoc) h \<and>
           snapshotInFront exEnv h
             (saveKeyResult ''a'' [] 0 [] [] 0 [] [] [] [] [] [] exEnv exDoc)) \<and>
      (\<exists>h. atMostOneItemEntry (history exDoc) h \<and> snapshotInFront exEnv h (deleteKR ''a'' ''k1'' exEnv exDoc)) \<and>
      (find (\<lambda>k. kr_id k = ''k1'') (keyResults ?a) = Some (exKR ''k1'' 50 100 50) \<longrightarrow>
         (\<exists>h. atMostOneItemEntry (history exDoc) h \<and> snapshotInFront exEnv h ?R))"
    by (elim conjE)
  from this[THEN mp, OF f, THEN conjunct2, THEN conjunct2, THEN mp, OF k]
  obtain h0 where "snapshotInFront exEnv h0 ?R" by (elim exE conjE)
  then have c: "hd (history ?R) = snapshotEntry exEnv (objectives ?R)"
    using neR by (simp add: snapshotInFront_def)
  from b have b': "history (recordProgressSnapshot exEnv exDoc) = [snapshotEntry exEnv (objectives exDoc)]"
    by simp
  from a b' len c show ?thesis by (intro conjI)
qed

subsection \<open>Progress entries\<close>

lemma roundTiesToEven_nonpos: "r \<le> 0 \<Longrightarrow> roundTiesToEven r \<le> 0"
proof -
  assume r: "r \<le> 0"
  have f: "\<lfloor>r\<rfloor> \<le> 0" using r by (simp add: floor_le_zero)
  show ?thesis
  proof (cases "r = of_int \<lfloor>r\<rfloor>")
    case True
    then have "r - of_int \<lfloor>r\<rfloor> = 0" by simp
    then show ?thesis using f by (simp add: roundTiesToEven_def Let_def)
  next
    case False
    then have "r < 0" using r by (cases "r = 0") auto
    then have "\<lfloor>r\<rfloor> < 0" by (simp add: floor_less_zero)
    then show ?thesis by (auto simp: roundTiesToEven_def Let_def)
  qed
qed

lemma fl_nonpos: "x \<le> 0 \<Longrightarrow> fl x = Num y \<Longrightarrow> y \<le> 0"
proof -
  assume x: "x \<le> 0" and e: "fl x = Num y"
  have "of_int (roundTiesToEven (x / pow2 k)) * pow2 k \<le> (0::rat)" for k
  proof -
    have "x / pow2 k \<le> 0" using x pow2_pos[of k] by (simp add: divide_nonpos_pos)
    then have "roundTiesToEven (x / pow2 k) \<le> 0" by (rule roundTiesToEven_nonpos)
    then have "(of_int (roundTiesToEven (x / pow2 k)) :: rat) \<le> 0" by simp
    then show ?thesis using pow2_pos[of k] by (simp add: mult_nonpos_nonneg less_imp_le)
  qed
  then show ?thesis using e
    by (auto simp: fl_def Let_def split: if_splits)
qed

lemma js_add_int_nonpos: "a + b \<le> 0 \<Longrightarrow> js_add_int a b \<le> 0"
proof -
  assume s: "a + b \<le> 0"
  show ?thesis
  proof (cases "fl (of_int (a + b))")
    case (Num y)
    have "(of_int (a + b) :: rat) \<le> 0" using s by simp
    from fl_nonpos[OF this Num] have "\<lfloor>y\<rfloor> \<le> 0" by (simp add: floor_le_zero)
    then show ?thesis using s Num by (simp add: js_add_int_def Let_def)
  qed (use s in \<open>simp_all add: js_add_int_def Let_def\<close>)
qed

text \<open>
  C10, as the code has it. \<^verbatim>\<open>updateKR\<close> on an existing key result stores
  \<^verbatim>\<open>max(0, min(target, current + delta))\<close>, where the sum is the double addition, exact
  while \<open>|current + delta| \<le> 2^53\<close>. When that value differs from the old \<^verbatim>\<open>current\<close>, the
  history gets a \<^verbatim>\<open>progress\<close> entry and, in front of it, the \<^verbatim>\<open>progress-snapshot\<close> entry;
  when it is the same, only the \<^verbatim>\<open>progress-snapshot\<close> entry. The value is the same for a
  negative delta when \<^verbatim>\<open>current\<close> is 0, and for a positive delta when \<^verbatim>\<open>current\<close> equals a
  target that is not negative (the sum within \<open>2^53\<close>). When \<^verbatim>\<open>current\<close> equals a negative
  target, a positive delta stores 0, which differs from \<^verbatim>\<open>current\<close>.
\<close>

theorem updateKR_progress_entry:
  "(find (\<lambda>ob. obj_id ob = oid) (objectives d) = Some objective \<and>
    find (\<lambda>k. kr_id k = kid) (keyResults objective) = Some kr \<longrightarrow>
      (\<exists>krs. find (\<lambda>ob. obj_id ob = oid) (objectives (updateKR oid kid delta e d))
                 = Some (objective\<lparr>keyResults := krs\<rparr>) \<and>
               find (\<lambda>k. kr_id k = kid) krs = Some (kr\<lparr>current := clampedCurrent kr delta\<rparr>)) \<and>
      (clampedCurrent kr delta \<noteq> current kr \<longrightarrow>
         history (updateKR oid kid delta e d) =
           snapshotEntry e (objectives (updateKR oid kid delta e d)) #
             take 999 (progressEntry e kid objective kr delta # take 999 (history d))) \<and>
      (clampedCurrent kr delta = current kr \<longrightarrow>
         history (updateKR oid kid delta e d) =
           snapshotEntry e (objectives (updateKR oid kid delta e d)) # take 999 (history d))) \<and>
   h_type (progressEntry e kid objective kr delta) = ''progress'' \<and>
   h_type (snapshotEntry e objs) = ''progress-snapshot'' \<and>
   clampedCurrent kr delta = max 0 (min (target kr) (js_add_int (current kr) delta)) \<and>
   (\<bar>current kr + delta\<bar> \<le> 9007199254740992 \<longrightarrow>
      js_add_int (current kr) delta = current kr + delta) \<and>
   (0 < delta \<and> current kr = target kr \<and> 0 \<le> target kr \<and>
    \<bar>current kr + delta\<bar> \<le> 9007199254740992 \<longrightarrow> clampedCurrent kr delta = current kr) \<and>
   (0 < delta \<and> current kr = target kr \<and> target kr < 0 \<longrightarrow>
      clampedCurrent kr delta = 0 \<and> clampedCurrent kr delta \<noteq> current kr) \<and>
   (delta < 0 \<and> current kr = 0 \<longrightarrow> clampedCurrent kr delta = current kr)"
proof (intro conjI impI; (elim conjE)?)
  assume f: "find (\<lambda>ob. obj_id ob = oid) (objectives d) = Some objective"
    and k: "find (\<lambda>k. kr_id k = kid) (keyResults objective) = Some kr"
  note u = updateKR_effect[OF f k, of delta e]
  show "\<exists>krs. find (\<lambda>ob. obj_id ob = oid) (objectives (updateKR oid kid delta e d))
                 = Some (objective\<lparr>keyResults := krs\<rparr>) \<and>
               find (\<lambda>k. kr_id k = kid) krs = Some (kr\<lparr>current := clampedCurrent kr delta\<rparr>)"
    by (rule u(1))
  show "history (updateKR oid kid delta e d) =
           snapshotEntry e (objectives (updateKR oid kid delta e d)) #
             take 999 (progressEntry e kid objective kr delta # take 999 (history d))"
    if "clampedCurrent kr delta \<noteq> current kr"
    using u(2) that by simp
  show "history (updateKR oid kid delta e d) =
           snapshotEntry e (objectives (updateKR oid kid delta e d)) # take 999 (history d)"
    if "clampedCurrent kr delta = current kr"
    using u(2) that by simp
next
  show "h_type (progressEntry e kid objective kr delta) = ''progress''"
    by (simp add: progressEntry_def)
  show "h_type (snapshotEntry e objs) = ''progress-snapshot''"
    by (simp add: snapshotEntry_def)
  show "clampedCurrent kr delta = max 0 (min (target kr) (js_add_int (current kr) delta))"
    by (simp add: clampedCurrent_def)
  show "js_add_int (current kr) delta = current kr + delta"
    if "\<bar>current kr + delta\<bar> \<le> 9007199254740992"
    using that by (rule js_add_int_exact)
  show "clampedCurrent kr delta = current kr"
    if "0 < delta" "current kr = target kr" "0 \<le> target kr"
      "\<bar>current kr + delta\<bar> \<le> 9007199254740992"
    using that by (simp add: clampedCurrent_def js_add_int_exact)
  show "clampedCurrent kr delta = 0" if "0 < delta" "current kr = target kr" "target kr < 0"
    using that by (simp add: clampedCurrent_def)
  show "clampedCurrent kr delta \<noteq> current kr" if "0 < delta" "current kr = target kr" "target kr < 0"
    using that by (simp add: clampedCurrent_def)
  show "clampedCurrent kr delta = current kr" if "delta < 0" "current kr = 0"
  proof -
    have "js_add_int 0 delta \<le> 0" using that(1) by (intro js_add_int_nonpos) simp
    then show ?thesis using that(2) by (simp add: clampedCurrent_def)
  qed
qed

text \<open>
  C10 as stated fails: adding a key result with target -5 and then editing it with the
  same target leaves \<^verbatim>\<open>current\<close> equal to the target, -5; \<^verbatim>\<open>updateKR\<close> with delta 10 then
  stores \<^verbatim>\<open>current\<close> 0 and writes a \<^verbatim>\<open>progress\<close> entry.
\<close>

theorem updateKR_progress_counterexample:
  "map (\<lambda>k. (kr_id k, current k, target k)) (concat (map keyResults (objectives exDocNegative)))
     = [(''n1'', - 5, - 5)] \<and>
   map (\<lambda>k. (kr_id k, current k, target k))
       (concat (map keyResults (objectives (updateKR ''a'' ''n1'' 10 exEnv exDocNegative))))
     = [(''n1'', 0, - 5)] \<and>
   map h_type (take 2 (history (updateKR ''a'' ''n1'' 10 exEnv exDocNegative)))
     = [''progress-snapshot'', ''progress'']"
  by code_simp

theorem updateKR_progress_entry_witness:
  "history (updateKR ''a'' ''k1'' 10 exEnv exDocDone) =
     [snapshotEntry exEnv (objectives (updateKR ''a'' ''k1'' 10 exEnv exDocDone))] \<and>
   history (updateKR ''a'' ''k1'' (- 10) exEnv exDocDone) =
     [snapshotEntry exEnv (objectives (updateKR ''a'' ''k1'' (- 10) exEnv exDocDone)),
      progressEntry exEnv ''k1'' (exObj ''a'' 100 [exKR ''k1'' 100 100 100])
        (exKR ''k1'' 100 100 100) (- 10)] \<and>
   clampedCurrent (exKR ''k1'' 100 100 100) 10 = 100 \<and>
   clampedCurrent (exKR ''k1'' 100 100 100) (- 10) = 90 \<and>
   clampedCurrent (exKR ''k1'' 0 100 100) (- 10) = 0 \<and>
   clampedCurrent (exKR ''k1'' (- 5) (- 5) 100) 10 = 0"
proof -
  let ?a = "exObj ''a'' 100 [exKR ''k1'' 100 100 100]"
  let ?k = "exKR ''k1'' 100 100 100"
  let ?z = "exKR ''k1'' 0 100 100"
  let ?n = "exKR ''k1'' (- 5) (- 5) 100"
  have fk: "find (\<lambda>ob. obj_id ob = ''a'') (objectives exDocDone) = Some ?a \<and>
            find (\<lambda>k. kr_id k = ''k1'') (keyResults ?a) = Some ?k"
    by (simp add: exDocDone_def exObj_def exKR_def)
  have h: "history exDocDone = []" by (simp add: exDocDone_def)
  have v: "current ?k = 100" "target ?k = 100" "current ?z = 0" "current ?n = - 5"
    by (simp_all add: exKR_def)
  have p1: "(0::int) < 10 \<and> current ?k = target ?k \<and> 0 \<le> target ?k \<and>
            \<bar>current ?k + 10\<bar> \<le> 9007199254740992"
    by (simp add: exKR_def)
  have p2: "\<bar>current ?k + (- 10)\<bar> \<le> 9007199254740992" by (simp add: exKR_def)
  have p3: "(- 10::int) < 0 \<and> current ?z = 0" by (simp add: exKR_def)
  have p4: "(0::int) < 10 \<and> current ?n = target ?n \<and> target ?n < 0" by (simp add: exKR_def)
  note t1 = updateKR_progress_entry[of "''a''" exDocDone ?a "''k1''" ?k 10 exEnv "[]"]
  note t2 = updateKR_progress_entry[of "''a''" exDocDone ?a "''k1''" ?k "- 10" exEnv "[]"]
  note t3 = updateKR_progress_entry[of "''a''" exDocDone ?a "''k1''" ?z "- 10" exEnv "[]"]
  note t4 = updateKR_progress_entry[of "''a''" exDocDone ?a "''k1''" ?n 10 exEnv "[]"]
  note c1 = t1[THEN conjunct2, THEN conjunct2, THEN conjunct2, THEN conjunct2, THEN conjunct2,
      THEN conjunct1, THEN mp, OF p1]
  note x2 = t2[THEN conjunct2, THEN conjunct2, THEN conjunct2, THEN conjunct2, THEN conjunct1,
      THEN mp, OF p2]
  note d2 = t2[THEN conjunct2, THEN conjunct2, THEN conjunct2, THEN conjunct1]
  note c3 = t3[THEN conjunct2, THEN conjunct2, THEN conjunct2, THEN conjunct2, THEN conjunct2,
      THEN conjunct2, THEN conjunct2, THEN mp, OF p3]
  note c4 = t4[THEN conjunct2, THEN conjunct2, THEN conjunct2, THEN conjunct2, THEN conjunct2,
      THEN conjunct2, THEN conjunct1, THEN mp, OF p4, THEN conjunct1]
  have c2: "clampedCurrent ?k (- 10) = 90" unfolding d2 x2 by (simp add: exKR_def)
  then have c2n: "clampedCurrent ?k (- 10) \<noteq> current ?k" by (simp add: exKR_def)
  note a = t1[THEN conjunct1, THEN mp, OF fk, THEN conjunct2, THEN conjunct2, THEN mp, OF c1,
      unfolded h]
  note b = t2[THEN conjunct1, THEN mp, OF fk, THEN conjunct2, THEN conjunct1, THEN mp, OF c2n,
      unfolded h]
  from a have a': "history (updateKR ''a'' ''k1'' 10 exEnv exDocDone) =
     [snapshotEntry exEnv (objectives (updateKR ''a'' ''k1'' 10 exEnv exDocDone))]" by simp
  from b have b': "history (updateKR ''a'' ''k1'' (- 10) exEnv exDocDone) =
     [snapshotEntry exEnv (objectives (updateKR ''a'' ''k1'' (- 10) exEnv exDocDone)),
      progressEntry exEnv ''k1'' ?a ?k (- 10)]" by simp
  from c1 have c1': "clampedCurrent ?k 10 = 100" by (simp add: v)
  from c3 have c3': "clampedCurrent ?z (- 10) = 0" by (simp add: v)
  from a' b' c1' c2 c3' c4 show ?thesis by (intro conjI)
qed

end
